theory Spec2Isabelle
  imports Complex_Main
begin

section \<open>The repository\<close>

text \<open>
  Three independent scripts: \<open>data.py\<close> cleans a table of tornado reports and computes
  the valid time of every report; \<open>process_reforecast_data.py\<close> validates its bounds,
  enumerates the object keys of GEFS reforecast files, and fetches, cuts and saves each
  object; \<open>download-GEFSV12-v0.1.py\<close> copies reanalysis files over FTP and starts again
  after a disconnect. Each function that a property below is about is translated here
  from its source; what the libraries and the network do enters as parameters.
\<close>

section \<open>Python and library helpers\<close>

fun split_on :: "char \<Rightarrow> string \<Rightarrow> string list" where
  \<comment> \<open>\<^verbatim>\<open>str.split(sep)\<close> for a separator of one character\<close>
  "split_on c [] = [[]]"
| "split_on c (x # xs) =
     (if x = c then [] # split_on c xs
      else (let r = split_on c xs in (x # hd r) # tl r))"

fun startswith :: "string \<Rightarrow> string \<Rightarrow> bool" where
  "startswith s [] = True"
| "startswith [] (p # ps) = False"
| "startswith (x # xs) (p # ps) = (x = p \<and> startswith xs ps)"

fun contains :: "string \<Rightarrow> string \<Rightarrow> bool" where
  \<comment> \<open>\<^verbatim>\<open>sub in s\<close> for strings\<close>
  "contains [] sub = (sub = [])"
| "contains (x # xs) sub = (startswith (x # xs) sub \<or> contains xs sub)"

definition os_path_join :: "string \<Rightarrow> string \<Rightarrow> string" where
  \<comment> \<open>\<^verbatim>\<open>os.path.join(a, b)\<close> of posixpath\<close>
  "os_path_join a b =
     (if startswith b ''/'' then b
      else if a = [] \<or> last a = CHR ''/'' then a @ b
      else a @ ''/'' @ b)"

definition digit_char :: "int \<Rightarrow> char" where
  "digit_char n = char_of (48 + n)"

function digits :: "int \<Rightarrow> string" where
  \<comment> \<open>the decimal digits of a number that is not negative\<close>
  "digits n = (if n < 10 then [digit_char n] else digits (n div 10) @ [digit_char (n mod 10)])"
  by pat_completeness auto
termination
  by (relation "measure nat") auto

declare digits.simps [simp del]

definition py_str :: "int \<Rightarrow> string" where
  \<comment> \<open>\<^verbatim>\<open>str(n)\<close> and the format \<^verbatim>\<open>%s\<close> of an integer\<close>
  "py_str n = (if n < 0 then CHR ''-'' # digits (- n) else digits n)"

definition pad2 :: "int \<Rightarrow> string" where
  \<comment> \<open>the format \<^verbatim>\<open>%02d\<close>, and \<^verbatim>\<open>%m\<close> and \<^verbatim>\<open>%d\<close> of strftime\<close>
  "pad2 n = (if 0 \<le> n \<and> n < 10 then CHR ''0'' # py_str n else py_str n)"

subsection \<open>Dates\<close>

text \<open>
  A date is its number of days since 1970-01-01. \<open>pd.date_range\<close> gives midnights, so
  the hour of every date it returns is 00.
\<close>

type_synonym pydate = int

definition days_from_civil :: "int \<Rightarrow> int \<Rightarrow> int \<Rightarrow> int" where
  \<comment> \<open>days from 1970-01-01 to the given day of the proleptic Gregorian calendar\<close>
  "days_from_civil y m d =
     (let y' = (if m \<le> 2 then y - 1 else y);
          era = y' div 400;
          yoe = y' - era * 400;
          doy = (153 * (if m > 2 then m - 3 else m + 9) + 2) div 5 + d - 1;
          doe = yoe * 365 + yoe div 4 - yoe div 100 + doy
      in era * 146097 + doe - 719468)"

definition civil_from_days :: "pydate \<Rightarrow> int \<times> int \<times> int" where
  \<comment> \<open>year, month and day of the month of a date\<close>
  "civil_from_days z0 =
     (let z = z0 + 719468;
          era = z div 146097;
          doe = z - era * 146097;
          yoe = (doe - doe div 1460 + doe div 36524 - doe div 146096) div 365;
          doy = doe - (365 * yoe + yoe div 4 - yoe div 100);
          mp = (5 * doy + 2) div 153;
          d = doy - (153 * mp + 2) div 5 + 1;
          m = (if mp < 10 then mp + 3 else mp - 9);
          y = yoe + era * 400
      in (if m \<le> 2 then y + 1 else y, m, d))"

definition strftime_Y :: "pydate \<Rightarrow> string" where
  "strftime_Y dt = (case civil_from_days dt of (y, m, d) \<Rightarrow> py_str y)"

definition strftime_Ymd00 :: "pydate \<Rightarrow> string" where
  \<comment> \<open>\<^verbatim>\<open>dt.strftime("%Y%m%d00")\<close>\<close>
  "strftime_Ymd00 dt =
     (case civil_from_days dt of (y, m, d) \<Rightarrow>
        py_str y @ pad2 m @ pad2 d @ ''00'')"

function date_range_up :: "pydate \<Rightarrow> pydate \<Rightarrow> int \<Rightarrow> pydate list" where
  "date_range_up s e k =
     (if 0 < k \<and> s \<le> e then s # date_range_up (s + k) e k else [])"
  by pat_completeness auto
termination
  by (relation "measure (\<lambda>(s, e, k). nat (e - s + 1))") auto

declare date_range_up.simps [simp del]

function date_range_down :: "pydate \<Rightarrow> pydate \<Rightarrow> int \<Rightarrow> pydate list" where
  "date_range_down s e k =
     (if k < 0 \<and> e \<le> s then s # date_range_down (s + k) e k else [])"
  by pat_completeness auto
termination
  by (relation "measure (\<lambda>(s, e, k). nat (s - e + 1))") auto

declare date_range_down.simps [simp del]

subsection \<open>Floating-point numbers\<close>

text \<open>
  A Python \<open>float\<close> and an element of a \<open>float64\<close> array is a binary64 number: a real
  with a significand of 53 bits, one of the two infinities, or NaN. The two zeros compare
  equal and are the one value \<open>Finite 0\<close> here. Every comparison with NaN is false. Not
  every real is a binary64 number; what is proved of \<open>Finite x\<close> for every real \<open>x\<close> holds
  of the binary64 numbers among them, and every number in an evaluation below is one.
\<close>

datatype pyfloat = Finite real | PInf | NInf | NaN

definition float_lt :: "pyfloat \<Rightarrow> pyfloat \<Rightarrow> bool" where
  \<comment> \<open>\<^verbatim>\<open>x < y\<close>\<close>
  "float_lt x y =
     (case (x, y) of
        (Finite a, Finite b) \<Rightarrow> a < b
      | (Finite a, PInf) \<Rightarrow> True
      | (NInf, Finite b) \<Rightarrow> True
      | (NInf, PInf) \<Rightarrow> True
      | _ \<Rightarrow> False)"

definition float_le :: "pyfloat \<Rightarrow> pyfloat \<Rightarrow> bool" where
  \<comment> \<open>\<^verbatim>\<open>x <= y\<close>\<close>
  "float_le x y =
     (case (x, y) of
        (Finite a, Finite b) \<Rightarrow> a \<le> b
      | (Finite a, PInf) \<Rightarrow> True
      | (NInf, Finite b) \<Rightarrow> True
      | (NInf, PInf) \<Rightarrow> True
      | (NInf, NInf) \<Rightarrow> True
      | (PInf, PInf) \<Rightarrow> True
      | _ \<Rightarrow> False)"

definition float_gt :: "pyfloat \<Rightarrow> pyfloat \<Rightarrow> bool" where
  \<comment> \<open>\<^verbatim>\<open>x > y\<close>\<close>
  "float_gt x y = float_lt y x"

definition float_ge :: "pyfloat \<Rightarrow> pyfloat \<Rightarrow> bool" where
  \<comment> \<open>\<^verbatim>\<open>x >= y\<close>\<close>
  "float_ge x y = float_le y x"

definition py_min :: "pyfloat \<times> pyfloat \<Rightarrow> pyfloat" where
  \<comment> \<open>\<^verbatim>\<open>min\<close> of a pair: the first item, replaced by the second if \<^verbatim>\<open>second < first\<close>\<close>
  "py_min b = (if float_lt (snd b) (fst b) then snd b else fst b)"

definition py_max :: "pyfloat \<times> pyfloat \<Rightarrow> pyfloat" where
  \<comment> \<open>\<^verbatim>\<open>max\<close> of a pair: the first item, replaced by the second if \<^verbatim>\<open>second > first\<close>\<close>
  "py_max b = (if float_gt (snd b) (fst b) then snd b else fst b)"

text \<open>
  Arithmetic rounds to the nearest binary64 number, ties to the even significand. The
  spacing of the binary64 numbers around \<open>x\<close> is 2 to the power \<open>ulp_exponent x\<close>; a
  result of magnitude 2 to the 1024 or more is an infinity.
\<close>

definition round_half_even :: "real \<Rightarrow> int" where
  "round_half_even r =
     (let f = \<lfloor>r\<rfloor>; d = r - of_int f
      in if d < 1 / 2 then f else if 1 / 2 < d then f + 1 else if even f then f else f + 1)"

definition ulp_exponent :: "real \<Rightarrow> int" where
  "ulp_exponent x = max (\<lfloor>log 2 \<bar>x\<bar>\<rfloor> - 52) (- 1074)"

definition round64 :: "real \<Rightarrow> pyfloat" where
  "round64 x =
     (if x = 0 then Finite 0
      else (let u = 2 powr of_int (ulp_exponent x);
                r = of_int (round_half_even (x / u)) * u
            in if 2 ^ 1024 \<le> \<bar>r\<bar> then (if 0 < r then PInf else NInf) else Finite r))"

fun float_add :: "pyfloat \<Rightarrow> pyfloat \<Rightarrow> pyfloat" where
  \<comment> \<open>\<^verbatim>\<open>x + y\<close>\<close>
  "float_add (Finite a) (Finite b) = round64 (a + b)"
| "float_add NaN y = NaN"
| "float_add x NaN = NaN"
| "float_add PInf NInf = NaN"
| "float_add NInf PInf = NaN"
| "float_add PInf y = PInf"
| "float_add NInf y = NInf"
| "float_add (Finite a) y = y"

fun float_neg :: "pyfloat \<Rightarrow> pyfloat" where
  "float_neg (Finite a) = Finite (- a)"
| "float_neg PInf = NInf"
| "float_neg NInf = PInf"
| "float_neg NaN = NaN"

definition float_sub :: "pyfloat \<Rightarrow> pyfloat \<Rightarrow> pyfloat" where
  \<comment> \<open>\<^verbatim>\<open>x - y\<close>\<close>
  "float_sub x y = float_add x (float_neg y)"

definition c_fmod :: "real \<Rightarrow> real \<Rightarrow> real" where
  \<comment> \<open>\<^verbatim>\<open>fmod(a, b)\<close> of C for finite \<open>a\<close> and \<open>b\<close>, \<open>b\<close> not zero: the remainder of the
      division truncated towards zero; it is a binary64 number, no rounding takes place\<close>
  "c_fmod a b = a - b * of_int (if a / b < 0 then \<lceil>a / b\<rceil> else \<lfloor>a / b\<rfloor>)"

fun np_mod :: "pyfloat \<Rightarrow> pyfloat \<Rightarrow> pyfloat" where
  \<comment> \<open>\<^verbatim>\<open>np.mod\<close> on one element: \<^verbatim>\<open>fmod\<close>, and the divisor is added to a remainder that is
      not zero and has the other sign\<close>
  "np_mod (Finite a) (Finite b) =
     (if b = 0 then NaN
      else (let m = c_fmod a b
            in if m \<noteq> 0 then (if (b < 0) \<noteq> (m < 0) then round64 (m + b) else Finite m)
               else Finite 0))"
| "np_mod (Finite a) PInf = (if a < 0 then PInf else Finite a)"
| "np_mod (Finite a) NInf = (if 0 < a then NInf else Finite a)"
| "np_mod x y = NaN"

definition normalize_longitude :: "pyfloat \<Rightarrow> pyfloat" where
  \<comment> \<open>line 143 on one element of the coordinate\<close>
  "normalize_longitude x = float_sub (np_mod (float_add x (Finite 180)) (Finite 360)) (Finite 180)"

definition spec_normalize :: "real \<Rightarrow> real" where
  \<comment> \<open>the specification's normalization into [-180, 180) by modular arithmetic\<close>
  "spec_normalize x = (x + 180) - 360 * of_int \<lfloor>(x + 180) / 360\<rfloor> - 180"

definition dyadic_longitude :: "pyfloat \<Rightarrow> bool" where
  \<comment> \<open>a whole multiple of 2 to the -43 degrees, of magnitude 512 at most\<close>
  "dyadic_longitude v =
     (case v of Finite x \<Rightarrow> \<bar>x\<bar> \<le> 512 \<and> of_int \<lfloor>x * 2 ^ 43\<rfloor> = x * 2 ^ 43 | _ \<Rightarrow> False)"

section \<open>Tornado reports: the valid time of an observation (data.py)\<close>

text \<open>
  A pandas timestamp is a count of nanoseconds since 1970-01-01T00:00, and a Timedelta is
  a count of nanoseconds. Both are modelled as \<open>int\<close>. pandas keeps them in 64 bits and
  raises at the ends of its range (the years 1677 and 2262) instead of wrapping; the
  reports handled here lie between 1950 and 2018, and \<open>valid_time_in_range\<close> below shows
  that no intermediate value leaves the 64-bit range unless the observation lies within
  30 hours of its upper end.
\<close>

type_synonym timestamp = int
type_synonym timedelta = int

definition Timedelta_H :: "int \<Rightarrow> timedelta" where
  \<comment> \<open>\<^verbatim>\<open>pd.Timedelta('<n>H')\<close>\<close>
  "Timedelta_H n = n * 3600000000000"

definition dt_ceil :: "timestamp \<Rightarrow> timedelta \<Rightarrow> timestamp" where
  \<comment> \<open>\<^verbatim>\<open>Series.dt.ceil(freq)\<close>: pandas adds the floored remainder of the negated value\<close>
  "dt_ceil t freq = t + (- t) mod freq"

definition dt_hour :: "timestamp \<Rightarrow> int" where
  \<comment> \<open>\<^verbatim>\<open>Series.dt.hour\<close>: the hour of the day, 0 to 23\<close>
  "dt_hour t = (t div 3600000000000) mod 24"

definition valid_time :: "timestamp \<Rightarrow> timestamp" where
  \<comment> \<open>lines 50 and 51 of data.py on one element of the column\<close>
  "valid_time t =
     (let valid_times = dt_ceil (t + Timedelta_H 6) (Timedelta_H 12)
      in if dt_hour valid_times \<noteq> 0 then valid_times else valid_times + Timedelta_H 12)"

text \<open>
  The table that reaches \<open>find_valid_time\<close> has the columns kept by
  \<open>get_tornado_reports\<close>; \<open>df.assign\<close> returns it with one more column.
  The function reads the column \<open>observation_datetime\<close> whatever its parameter
  \<open>observation_time_column\<close> says.
\<close>

record report =
  observation_year :: int
  observation_month :: int
  observation_date :: int
  timezone :: int
  observation_state :: string
  f_or_ef_scale :: int
  starting_latitude_deg :: real
  starting_longitude_deg :: real
  ending_latitude_deg :: real
  ending_longitude_deg :: real
  observation_datetime :: timestamp

record valid_report = report +
  observation_valid_time :: timestamp

definition find_valid_time :: "report list \<Rightarrow> valid_report list" where
  "find_valid_time df =
     map (\<lambda>row. report.extend row
            (valid_report.fields (valid_time (observation_datetime row)))) df"

subsection \<open>Naming a timestamp by its calendar date\<close>

definition Timestamp :: "int \<Rightarrow> int \<Rightarrow> int \<Rightarrow> int \<Rightarrow> int \<Rightarrow> timestamp" where
  \<comment> \<open>\<^verbatim>\<open>pd.Timestamp(year, month, day, hour, minute)\<close>\<close>
  "Timestamp y m d hh mm =
     ((days_from_civil y m d * 24 + hh) * 60 + mm) * 60000000000"

subsection \<open>The valid time in the words of the specification\<close>

definition spec_round_up :: "int \<Rightarrow> int \<Rightarrow> int" where
  \<comment> \<open>the nearest multiple of \<open>u\<close> that is not below \<open>x\<close>\<close>
  "spec_round_up x u = \<lceil>real_of_int x / real_of_int u\<rceil> * u"

definition spec_valid_time :: "timestamp \<Rightarrow> timestamp" where
  \<comment> \<open>add 6 hours, round up to a 12-hour boundary, push an hour-0 result on by 12 hours\<close>
  "spec_valid_time t =
     (let r = spec_round_up (t + 6 * 3600000000000) (12 * 3600000000000)
      in if dt_hour r = 0 then r + 12 * 3600000000000 else r)"

section \<open>Reforecast pipeline (process_reforecast_data.py)\<close>

text \<open>
  The module as it stands does not load: the signature of the worker has a doubled comma
  (line 103), \<open>logging.get_logger\<close> does not exist (line 23), \<open>click.argument\<close> takes no
  \<open>help\<close>, and the entry point has no parameter for its arguments \<open>s3_bucket\<close> and
  \<open>s3_base_prefix\<close>. The model is of the bodies of the functions as they are written,
  the doubled comma read as one. A name that a body uses and that is neither a local
  variable nor a builtin is looked up among the names of the module when the body runs;
  the parameter \<open>globals\<close> lists these names. The module itself binds the names of
  \<open>module_globals\<close>; \<open>os\<close>, used at lines 128, 136 and 203, is not among them.
\<close>

definition module_globals :: "string list" where
  \<comment> \<open>the imports of lines 2 to 12, the assignments of lines 15 to 23 and the functions\<close>
  "module_globals =
     [''logging'', ''pathlib'', ''Iterable'', ''Dict'', ''TemporaryDirectory'', ''s3fs'',
      ''click'', ''np'', ''pd'', ''xr'', ''Parallel'', ''delayed'',
      ''S3_BUCKET'', ''BASE_S3_PREFIX'', ''DAYS_PREFIX'', ''COMMON_COLUMNS_TO_DROP'', ''logger'',
      ''create_selection_dict'', ''reduce_dataset'', ''try_to_open_grib_file'',
      ''download_and_process_grib'', ''get_and_process_reforecast_data'']"

subsection \<open>Datasets, failures and the world outside the program\<close>

record 'a slice =
  start :: 'a
  stop :: 'a

record 'd selection_dict =
  latitude :: "pyfloat slice"
  longitude :: "pyfloat slice"
  step :: "'d slice"

record 'a dataset =
  ds_longitude :: "pyfloat list"
  ds_rest :: 'a

datatype exn =
    ValueError_latitude "pyfloat \<times> pyfloat"
  | ValueError_longitude "pyfloat \<times> pyfloat"
  | ValueError_forecast "pyfloat \<times> pyfloat"
  | ValueError_Timedelta string    \<comment> \<open>\<^verbatim>\<open>pd.Timedelta\<close> cannot read the text\<close>
  | NameError string
  | TypeError
  | UnboundLocalError
  | KeyError
  | LibraryError string

datatype log_entry =
    OpenProblem string exn      \<comment> \<open>\<^verbatim>\<open>There was a problem opening up {path}: {e}\<close>\<close>
  | ProcessIssue string exn     \<comment> \<open>\<^verbatim>\<open>There was an issue processing {grib_file}: {e}\<close>\<close>

text \<open>
  The libraries the functions call. Each call either returns or raises; which of the two
  is not decided by the program, so every outcome is a parameter. \<open>format_float\<close> is the
  text that an f-string gives a float, and \<open>pd_Timedelta\<close> reads a text as a duration.
\<close>

record ('a, 'd) library =
  format_float :: "pyfloat \<Rightarrow> string"
  pd_Timedelta :: "string \<Rightarrow> exn + 'd"
  S3FileSystem :: "exn option"
  TemporaryDirectory :: "exn + string"
  s3_read :: "string \<Rightarrow> exn + string"
  xr_open_dataset :: "string \<Rightarrow> exn + 'a dataset"
  cfgrib_open_datasets :: "string \<Rightarrow> exn + 'a dataset"
  ds_sel :: "'d selection_dict \<Rightarrow> 'a dataset \<Rightarrow> exn + 'a dataset"
  ds_reduce :: "bool \<Rightarrow> 'a dataset \<Rightarrow> exn + 'a dataset"
  to_netcdf :: "'a dataset \<Rightarrow> string \<Rightarrow> exn option"
  open_mfdataset :: "(string \<times> 'a dataset) list \<Rightarrow> exn + 'a dataset"
  pd_date_range_zero :: exn

record 'a world =
  local_files :: "(string \<times> 'a dataset) list"
  s3_requests :: "string list"
  error_log :: "log_entry list"

definition path_exists :: "'a world \<Rightarrow> string \<Rightarrow> bool" where
  "path_exists w p = (map_of (local_files w) p \<noteq> None)"

definition write_file :: "string \<Rightarrow> 'a dataset \<Rightarrow> 'a world \<Rightarrow> 'a world" where
  "write_file p ds w =
     w\<lparr>local_files := (p, ds) # filter (\<lambda>entry. fst entry \<noteq> p) (local_files w)\<rparr>"

definition log_error :: "log_entry \<Rightarrow> 'a world \<Rightarrow> 'a world" where
  "log_error m w = w\<lparr>error_log := error_log w @ [m]\<rparr>"

subsection \<open>The selection window\<close>

definition create_selection_dict ::
  "('a, 'd) library \<Rightarrow> pyfloat \<times> pyfloat \<Rightarrow> pyfloat \<times> pyfloat \<Rightarrow> pyfloat \<times> pyfloat
     \<Rightarrow> exn + 'd selection_dict" where
  "create_selection_dict lib latitude_bounds longitude_bounds forecast_days_bounds =
     (let latitude_slice = \<lparr>start = py_max latitude_bounds, stop = py_min latitude_bounds\<rparr>;
          longitude_slice = \<lparr>start = py_min longitude_bounds, stop = py_max longitude_bounds\<rparr>
      in case pd_Timedelta lib (format_float lib (py_min forecast_days_bounds) @ '' days'') of
           Inl e \<Rightarrow> Inl e
         | Inr first_forecast_hour \<Rightarrow>
            (case pd_Timedelta lib (format_float lib (py_max forecast_days_bounds) @ '' days'') of
               Inl e \<Rightarrow> Inl e
             | Inr last_forecast_hour \<Rightarrow>
                (let forecast_hour_slice =
                       \<lparr>start = first_forecast_hour, stop = last_forecast_hour\<rparr>
                 in Inr \<lparr>latitude = latitude_slice, longitude = longitude_slice,
                         step = forecast_hour_slice\<rparr>)))"

subsection \<open>The worker\<close>

definition assign_longitude :: "'a dataset \<Rightarrow> 'a dataset" where
  \<comment> \<open>line 143\<close>
  "assign_longitude ds = ds\<lparr>ds_longitude := map normalize_longitude (ds_longitude ds)\<rparr>"

definition try_to_open_grib_file ::
  "('a, 'd) library \<Rightarrow> string \<Rightarrow> string \<Rightarrow> 'a world \<Rightarrow> 'a dataset option \<times> 'a world" where
  \<comment> \<open>\<open>content\<close> is what the file at \<open>path\<close> holds\<close>
  "try_to_open_grib_file lib path content w =
     (case xr_open_dataset lib content of
        Inr ds \<Rightarrow> (Some ds, w)
      | Inl e \<Rightarrow>
          (case cfgrib_open_datasets lib content of
             Inr ds \<Rightarrow> (Some ds, w)
           | Inl e2 \<Rightarrow> (None, log_error (OpenProblem path e) w)))"

definition process_dataset ::
  "('a, 'd) library \<Rightarrow> 'd selection_dict \<Rightarrow> string \<Rightarrow> 'a dataset \<Rightarrow> exn + 'a dataset" where
  \<comment> \<open>lines 142 to 156; the steps of xarray after line 143 are one call of \<open>ds_reduce\<close>\<close>
  "process_dataset lib selection_dict base_file_name ds =
     (case ds_sel lib selection_dict ds of
        Inl e \<Rightarrow> Inl e
      | Inr ds1 \<Rightarrow> ds_reduce lib (contains base_file_name ''pcp'') (assign_longitude ds1))"

definition saved_file_path_of :: "string list \<Rightarrow> string \<Rightarrow> string \<Rightarrow> exn + string" where
  \<comment> \<open>lines 127 and 128\<close>
  "saved_file_path_of globals save_dir s3_prefix =
     (let base_file_name = last (split_on CHR ''/'' s3_prefix)
      in if ''os'' \<in> set globals
         then Inr (os_path_join save_dir (hd (split_on CHR ''.'' base_file_name) @ ''.nc''))
         else Inl (NameError ''os''))"

definition download_and_process_grib ::
  "string list \<Rightarrow> ('a, 'd) library \<Rightarrow> string \<Rightarrow> pyfloat \<times> pyfloat \<Rightarrow> pyfloat \<times> pyfloat
     \<Rightarrow> pyfloat \<times> pyfloat \<Rightarrow> string
     \<Rightarrow> 'a world \<Rightarrow> (exn + string option) \<times> 'a world" where
  "download_and_process_grib globals lib s3_prefix latitude_bounds longitude_bounds
       forecast_days_bounds save_dir w =
     (let base_file_name = last (split_on CHR ''/'' s3_prefix)
      in case saved_file_path_of globals save_dir s3_prefix of
           Inl e \<Rightarrow> (Inl e, w)
         | Inr saved_file_path \<Rightarrow>
            (if path_exists w saved_file_path then (Inr (Some saved_file_path), w)
             else
              (case create_selection_dict lib latitude_bounds longitude_bounds
                      forecast_days_bounds of
                 Inl e \<Rightarrow> (Inl e, w)
               | Inr selection_dict \<Rightarrow>
                  (case S3FileSystem lib of
                     Some e \<Rightarrow> (Inl e, w)
                   | None \<Rightarrow>
                      (case TemporaryDirectory lib of
                         Inl e \<Rightarrow> (Inl UnboundLocalError, w)
                       | Inr t \<Rightarrow>
                          (let grib_file = os_path_join t base_file_name;
                               w1 = w\<lparr>s3_requests := s3_requests w @ [s3_prefix]\<rparr>
                           in case s3_read lib s3_prefix of
                                Inl e \<Rightarrow> (Inr None, log_error (ProcessIssue grib_file e) w1)
                              | Inr content \<Rightarrow>
                                 (case try_to_open_grib_file lib grib_file content w1 of
                                    (None, w2) \<Rightarrow> (Inr None, w2)
                                  | (Some ds, w2) \<Rightarrow>
                                     (case process_dataset lib selection_dict base_file_name ds of
                                        Inl e \<Rightarrow>
                                          (Inr None, log_error (ProcessIssue grib_file e) w2)
                                      | Inr ds' \<Rightarrow>
                                         (case to_netcdf lib ds' saved_file_path of
                                            Some e \<Rightarrow>
                                              (Inr None,
                                               log_error (ProcessIssue grib_file e) w2)
                                          | None \<Rightarrow>
                                              (Inr (Some saved_file_path),
                                               write_file saved_file_path ds' w2))))))))))"

subsection \<open>The orchestrator\<close>

definition S3_BUCKET :: string where
  "S3_BUCKET = ''noaa-gefs-retrospective''"

definition BASE_S3_PREFIX :: string where
  "BASE_S3_PREFIX = ''GEFSv12/reforecast''"

definition DAYS_PREFIX :: "(string \<times> string) list" where
  "DAYS_PREFIX = [(''1-10'', ''Days:1-10''), (''10-16'', ''Days:10-16'')]"

definition validate_bounds ::
  "pyfloat \<times> pyfloat \<Rightarrow> pyfloat \<times> pyfloat \<Rightarrow> pyfloat \<times> pyfloat \<Rightarrow> exn option" where
  \<comment> \<open>lines 186 to 191; \<open>None\<close> when no check raises\<close>
  "validate_bounds latitude_bounds longitude_bounds forecast_days_bounds =
     (if \<not> (float_gt (py_min latitude_bounds) (Finite (- 90))
             \<and> float_lt (py_max latitude_bounds) (Finite 90))
        then Some (ValueError_latitude latitude_bounds)
      else if \<not> (float_ge (py_min longitude_bounds) (Finite 0)
                  \<and> float_lt (py_max longitude_bounds) (Finite 360))
        then Some (ValueError_longitude longitude_bounds)
      else if \<not> (float_ge (py_min forecast_days_bounds) (Finite 0)
                  \<and> float_le (py_max forecast_days_bounds) (Finite 16))
        then Some (ValueError_forecast forecast_days_bounds)
      else None)"

definition object_key :: "pydate \<Rightarrow> string \<Rightarrow> string \<Rightarrow> string \<Rightarrow> string" where
  \<comment> \<open>the f-string of line 196\<close>
  "object_key dt var_name member days =
     S3_BUCKET @ ''/'' @ BASE_S3_PREFIX @ ''/'' @ strftime_Y dt @ ''/'' @ strftime_Ymd00 dt
       @ ''/'' @ member @ ''/'' @ days @ ''/'' @ var_name @ ''_'' @ strftime_Ymd00 dt
       @ ''_'' @ member @ ''.grib2''"

definition globbed_list :: "pydate list \<Rightarrow> string list \<Rightarrow> string list \<Rightarrow> string \<Rightarrow> string list" where
  \<comment> \<open>the comprehension of lines 196 to 198 over the dates of \<open>pd.date_range\<close>\<close>
  "globbed_list dts var_names members days =
     [object_key dt var_name member days. dt \<leftarrow> dts, var_name \<leftarrow> var_names, member \<leftarrow> members]"

definition date_range :: "('a, 'd) library \<Rightarrow> pydate \<Rightarrow> pydate \<Rightarrow> int \<Rightarrow> exn + pydate list" where
  \<comment> \<open>\<^verbatim>\<open>pd.date_range(start, end, freq=f'{k}D')\<close>\<close>
  "date_range lib s e k =
     (if k = 0 then Inl (pd_date_range_zero lib)
      else if 0 < k then Inr (date_range_up s e k)
      else Inr (date_range_down s e k))"

fun Parallel :: "('w \<Rightarrow> (exn + 'r) \<times> 'w) list \<Rightarrow> 'w \<Rightarrow> (exn + 'r list) \<times> 'w" where
  \<comment> \<open>the jobs one after the other; the first exception of a job is raised to the caller\<close>
  "Parallel [] w = (Inr [], w)"
| "Parallel (job # jobs) w =
     (case job w of
        (Inl e, w') \<Rightarrow> (Inl e, w')
      | (Inr r, w') \<Rightarrow>
          (case Parallel jobs w' of
             (Inl e, w'') \<Rightarrow> (Inl e, w'')
           | (Inr rs, w'') \<Rightarrow> (Inr (r # rs), w'')))"

definition call_download_and_process_grib ::
  "string list \<Rightarrow> ('a, 'd) library \<Rightarrow> string \<Rightarrow> (pyfloat \<times> pyfloat) option
     \<Rightarrow> (pyfloat \<times> pyfloat) option \<Rightarrow> (pyfloat \<times> pyfloat) option \<Rightarrow> string option
     \<Rightarrow> 'a world \<Rightarrow> (exn + string option) \<times> 'a world" where
  \<comment> \<open>a call of the worker; none of its five parameters has a default\<close>
  "call_download_and_process_grib globals lib s3_prefix latitude_bounds longitude_bounds
       forecast_days_bounds save_dir w =
     (case (latitude_bounds, longitude_bounds, forecast_days_bounds, save_dir) of
        (Some la, Some lo, Some fd, Some d) \<Rightarrow>
          download_and_process_grib globals lib s3_prefix la lo fd d w
      | _ \<Rightarrow> (Inl TypeError, w))"

fun endswith :: "string \<Rightarrow> string \<Rightarrow> bool" where
  "endswith s suffix = startswith (rev s) (rev suffix)"

definition glob_nc :: "string \<Rightarrow> string \<Rightarrow> bool" where
  \<comment> \<open>the path \<open>p\<close> matches \<^verbatim>\<open>os.path.join(local_save_dir, '*.nc')\<close>\<close>
  "glob_nc local_save_dir p =
     (let pre = os_path_join local_save_dir [];
          name = drop (length pre) p
      in startswith p pre \<and> \<not> startswith name ''.'' \<and> CHR ''/'' \<notin> set name
         \<and> endswith name ''.nc'')"

definition get_and_process_reforecast_data ::
  "string list \<Rightarrow> ('a, 'd) library \<Rightarrow> pydate \<Rightarrow> pydate \<Rightarrow> int \<Rightarrow> string list \<Rightarrow> string list
     \<Rightarrow> pyfloat \<times> pyfloat \<Rightarrow> pyfloat \<times> pyfloat \<Rightarrow> pyfloat \<times> pyfloat \<Rightarrow> string \<Rightarrow> string
     \<Rightarrow> 'a world \<Rightarrow> (exn + unit) \<times> 'a world" where
  "get_and_process_reforecast_data globals lib start_date end_date date_frequency members
       var_names latitude_bounds longitude_bounds forecast_days_bounds local_save_dir
       final_save_path w =
     (case validate_bounds latitude_bounds longitude_bounds forecast_days_bounds of
        Some e \<Rightarrow> (Inl e, w)
      | None \<Rightarrow>
         (case map_of DAYS_PREFIX
                 (if float_lt (py_max forecast_days_bounds) (Finite 10)
                  then ''1-10'' else ''10-16'') of
            None \<Rightarrow> (Inl KeyError, w)
          | Some days \<Rightarrow>
             (case date_range lib start_date end_date date_frequency of
                Inl e \<Rightarrow> (Inl e, w)
              | Inr dts \<Rightarrow>
                 (case Parallel
                         (map (\<lambda>f. call_download_and_process_grib globals lib f
                                      None None None None)
                            (globbed_list dts var_names members days)) w of
                    (Inl e, w') \<Rightarrow> (Inl e, w')
                  | (Inr _, w') \<Rightarrow>
                     (if ''os'' \<notin> set globals then (Inl (NameError ''os''), w')
                      else
                       (case open_mfdataset lib
                               (filter (\<lambda>entry. glob_nc local_save_dir (fst entry))
                                  (local_files w')) of
                          Inl e \<Rightarrow> (Inl e, w')
                        | Inr ds \<Rightarrow>
                           (case to_netcdf lib ds final_save_path of
                              Some e \<Rightarrow> (Inl e, w')
                            | None \<Rightarrow> (Inr (), write_file final_save_path ds w'))))))))"


subsection \<open>Concrete surroundings for evaluating the model\<close>





definition sample_format_float :: "pyfloat \<Rightarrow> string" where
  \<comment> \<open>the text of the floats that the evaluations below use; every other finite float
      stands for a text that \<open>sample_Timedelta\<close> does not read\<close>
  "sample_format_float x =
     (if x = Finite (11 / 2) then ''5.5''
      else if x = Finite (13 / 2) then ''6.5''
      else if x = Finite (1 / 2 ^ 20) then ''9.5367431640625e-07''
      else if x = Finite 1 then ''1.0''
      else if x = Finite 0 then ''0.0''
      else if x = NaN then ''nan''
      else if x = PInf then ''inf''
      else if x = NInf then ''-inf''
      else ''other'')"

definition sample_Timedelta :: "string \<Rightarrow> exn + int" where
  \<comment> \<open>the duration in nanoseconds of the texts that the evaluations below use; pandas
      does not read a number in exponent notation\<close>
  "sample_Timedelta s =
     (if s = ''5.5 days'' then Inr 475200000000000
      else if s = ''6.5 days'' then Inr 561600000000000
      else if s = ''1.0 days'' then Inr 86400000000000
      else if s = ''0.0 days'' then Inr 0
      else Inl (ValueError_Timedelta s))"

definition sample_dataset :: "unit dataset" where
  "sample_dataset = \<lparr>ds_longitude = [Finite 230, Finite 350], ds_rest = ()\<rparr>"

definition sample_library :: "(unit, int) library" where
  \<comment> \<open>every call succeeds, but for \<open>pd_Timedelta\<close> on a text it cannot read\<close>
  "sample_library =
     \<lparr>format_float = sample_format_float,
      pd_Timedelta = sample_Timedelta,
      S3FileSystem = None,
      TemporaryDirectory = Inr ''/tmp/tmpq'',
      s3_read = (\<lambda>key. Inr ''GRIB''),
      xr_open_dataset = (\<lambda>content. Inr sample_dataset),
      cfgrib_open_datasets = (\<lambda>content. Inr sample_dataset),
      ds_sel = (\<lambda>sel ds. Inr ds),
      ds_reduce = (\<lambda>pcp ds. Inr ds),
      to_netcdf = (\<lambda>ds path. None),
      open_mfdataset = (\<lambda>files. case files of [] \<Rightarrow> Inl (LibraryError ''no files to open'')
                                 | entry # _ \<Rightarrow> Inr (snd entry)),
      pd_date_range_zero = LibraryError ''zero frequency''\<rparr>"

definition empty_world :: "unit world" where
  "empty_world = \<lparr>local_files = [], s3_requests = [], error_log = []\<rparr>"

definition sample_key :: string where
  "sample_key = ''noaa-gefs-retrospective/GEFSv12/reforecast/2000/2000010100/c00/Days:1-10/cape_sfc_2000010100_c00.grib2''"

definition cached_world :: "unit world" where
  \<comment> \<open>a world in which the output file of \<open>sample_key\<close> exists\<close>
  "cached_world =
     \<lparr>local_files = [(''./reforecast_v3/cape_sfc_2000010100_c00.nc'',
                      \<lparr>ds_longitude = [Finite (- 130), Finite (- 10)], ds_rest = ()\<rparr>)],
      s3_requests = [sample_key], error_log = []\<rparr>"

section \<open>Reanalysis downloader (download-GEFSV12-v0.1.py)\<close>

text \<open>
  The local disk is a map from paths to the state of the file stored there. What the FTP
  server does is not decided by the script: the parameter \<open>net\<close> gives the outcome of the
  n-th \<open>RETR\<close> command of a run, and the parameter \<open>srv\<close> tells for the n-th session
  of a run whether opening it (lines 22 to 24) and closing it (line 62) return or raise;
  both stand outside every \<open>try\<close>. An exception of the \<open>try\<close> block other than the two
  that are caught ends the function; the model leaves the file partial then. Directories
  are left out: the script creates the directory of a date before it opens a file in it.
\<close>

datatype retr_outcome =
    Retrieved
  | EOFError
  | ConnectionResetError
  | OtherError      \<comment> \<open>any other exception of lines 44 to 49; the script does not catch it\<close>

datatype file_state = Partial | Complete

datatype message =
    Downloading
  | Reconnected
  | DownloadSpeed string
  | EOFDisconnected string
  | ConnectionReset string

datatype raised =
    ValueError_date
  | TransferError
  | LoginError      \<comment> \<open>what \<^verbatim>\<open>FTP(...)\<close> or \<^verbatim>\<open>ftp.login()\<close> raises\<close>
  | QuitError       \<comment> \<open>what \<^verbatim>\<open>ftp.quit()\<close> raises\<close>

record server =
  ftp_login :: "nat \<Rightarrow> bool"    \<comment> \<open>lines 22 and 24 return for the n-th session\<close>
  ftp_quit :: "nat \<Rightarrow> bool"     \<comment> \<open>line 62 returns for the n-th session\<close>

record disk =
  files :: "string \<Rightarrow> file_state option"
  log_file :: "(string \<times> message) list"
  retr_count :: nat
  sessions_opened :: nat
  sessions_quit :: nat

definition print_log :: "message \<Rightarrow> string \<Rightarrow> disk \<Rightarrow> disk" where
  "print_log m logfilename w = w\<lparr>log_file := log_file w @ [(logfilename, m)]\<rparr>"

definition is_digit :: "char \<Rightarrow> bool" where
  "is_digit c = (48 \<le> (of_char c :: nat) \<and> (of_char c :: nat) \<le> 57)"

definition int_of_digits :: "string \<Rightarrow> int" where
  \<comment> \<open>\<^verbatim>\<open>int(s)\<close> for a text of decimal digits\<close>
  "int_of_digits s = foldl (\<lambda>a c. 10 * a + (int (of_char c) - 48)) 0 s"

definition date_of :: "string \<Rightarrow> pydate option" where
  \<comment> \<open>\<^verbatim>\<open>date(int(s[:4]), int(s[4:6]), int(s[6:]))\<close> for a text of eight digits;
      \<open>None\<close> where \<^verbatim>\<open>date\<close> raises\<close>
  "date_of s =
     (let y = int_of_digits (take 4 s);
          m = int_of_digits (take 2 (drop 4 s));
          d = int_of_digits (drop 6 s)
      in if length s = 8 \<and> list_all is_digit s \<and> 1 \<le> y
            \<and> civil_from_days (days_from_civil y m d) = (y, m, d)
         then Some (days_from_civil y m d) else None)"

definition all_dates :: "pydate \<Rightarrow> pydate \<Rightarrow> pydate list" where
  \<comment> \<open>lines 27 to 29: the days from the first to the last, both included\<close>
  "all_dates s e = map (\<lambda>d. s + int d) [0..<nat (e - s + 1)]"

definition path_of_date :: "pydate \<Rightarrow> string" where
  \<comment> \<open>line 31\<close>
  "path_of_date curr_date =
     (case civil_from_days curr_date of (y, m, d) \<Rightarrow>
        ''GEFSv12/reanalysis/FV3_reanalysis/'' @ py_str y @ ''/'' @ pad2 m
          @ ''/'' @ pad2 d)"

definition inittime :: "int list" where
  "inittime = [0, 6, 12, 18]"

definition filename_of :: "pydate \<Rightarrow> int \<Rightarrow> string" where
  \<comment> \<open>line 35\<close>
  "filename_of curr_date t =
     (case civil_from_days curr_date of (y, m, d) \<Rightarrow>
        ''gec00.t'' @ pad2 t @ ''z.pgrb2.'' @ py_str y @ pad2 m @ pad2 d
          @ ''.0p25.f000'')"

text \<open>
  The two loops of \<open>download\<close>. A loop gives \<open>None\<close> when it has run to its end, and
  \<open>Some\<close> of what the function returns or raises when it was left from inside.
\<close>

fun download_filenames ::
  "(nat \<Rightarrow> retr_outcome) \<Rightarrow> string \<Rightarrow> string \<Rightarrow> string list \<Rightarrow> string option \<Rightarrow> disk
     \<Rightarrow> (raised + string option \<times> bool) option \<times> disk" where
  "download_filenames net logfilename path [] break_file w = (None, w)"
| "download_filenames net logfilename path (filename # filenames) break_file w =
     (let p = path @ ''/'' @ filename;
          w1 = (if files w p \<noteq> None \<and> break_file = Some p
                then w\<lparr>files := (files w)(p := None)\<rparr> else w)
      in if files w1 p \<noteq> None
         then download_filenames net logfilename path filenames break_file w1
         else
          (let w2 = w1\<lparr>files := (files w1)(p \<mapsto> Partial), retr_count := Suc (retr_count w1)\<rparr>
           in case net (retr_count w1) of
                Retrieved \<Rightarrow>
                  download_filenames net logfilename path filenames break_file
                    (print_log (DownloadSpeed p) logfilename
                       (w2\<lparr>files := (files w2)(p \<mapsto> Complete)\<rparr>))
              | EOFError \<Rightarrow>
                  (Some (Inr (Some p, True)), print_log (EOFDisconnected p) logfilename w2)
              | ConnectionResetError \<Rightarrow>
                  (Some (Inr (Some p, True)), print_log (ConnectionReset p) logfilename w2)
              | OtherError \<Rightarrow> (Some (Inl TransferError), w2)))"

fun download_dates ::
  "(nat \<Rightarrow> retr_outcome) \<Rightarrow> string \<Rightarrow> pydate list \<Rightarrow> string option \<Rightarrow> disk
     \<Rightarrow> (raised + string option \<times> bool) option \<times> disk" where
  "download_dates net logfilename [] break_file w = (None, w)"
| "download_dates net logfilename (curr_date # dates) break_file w =
     (case download_filenames net logfilename (path_of_date curr_date)
             (map (filename_of curr_date) inittime) break_file w of
        (None, w') \<Rightarrow> download_dates net logfilename dates break_file w'
      | (Some r, w') \<Rightarrow> (Some r, w'))"

definition download ::
  "server \<Rightarrow> (nat \<Rightarrow> retr_outcome) \<Rightarrow> string \<Rightarrow> string \<Rightarrow> string \<Rightarrow> string option
     \<Rightarrow> bool \<Rightarrow> disk \<Rightarrow> (raised + string option \<times> bool) \<times> disk" where
  "download srv net start_time end_time logfilename break_file flag w =
     (if \<not> ftp_login srv (sessions_opened w) then (Inl LoginError, w)
      else
       (let w0 = w\<lparr>sessions_opened := Suc (sessions_opened w)\<rparr>
        in case (date_of start_time, date_of end_time) of
             (Some s, Some e) \<Rightarrow>
               (case download_dates net logfilename (all_dates s e) break_file w0 of
                  (None, w1) \<Rightarrow>
                    (if ftp_quit srv (sessions_opened w)
                     then (Inr (None, False), w1\<lparr>sessions_quit := Suc (sessions_quit w1)\<rparr>)
                     else (Inl QuitError, w1))
                | (Some (Inr r), w1) \<Rightarrow> (Inr r, w1)
                | (Some (Inl x), w1) \<Rightarrow> (Inl x, w1))
           | _ \<Rightarrow> (Inl ValueError_date, w0)))"

partial_function (option) retry_loop ::
  "server \<Rightarrow> (nat \<Rightarrow> retr_outcome) \<Rightarrow> string \<Rightarrow> string \<Rightarrow> string \<Rightarrow> string option
     \<Rightarrow> bool \<Rightarrow> disk \<Rightarrow> ((raised + string option \<times> bool) \<times> disk) option" where
  \<comment> \<open>lines 70 to 73; \<open>None\<close> when the loop runs for ever\<close>
  "retry_loop srv net start_time end_time logfilename break_file flag w =
     (if flag
      then (case download srv net start_time end_time logfilename break_file flag w of
              (Inl x, w') \<Rightarrow> Some (Inl x, w')
            | (Inr (break_file', flag'), w') \<Rightarrow>
                retry_loop srv net start_time end_time logfilename break_file' flag'
                  (print_log Reconnected logfilename w'))
      else Some (Inr (break_file, flag), w))"

declare retry_loop.simps [code]

definition script ::
  "server \<Rightarrow> (nat \<Rightarrow> retr_outcome) \<Rightarrow> string \<Rightarrow> disk
     \<Rightarrow> ((raised + string option \<times> bool) \<times> disk) option" where
  \<comment> \<open>the module: lines 8 to 11 and 67 to 73\<close>
  "script srv net logfilename w =
     retry_loop srv net ''20040101'' ''20091231'' logfilename None True
       (print_log Downloading logfilename w)"

subsection \<open>The two loops as one\<close>

definition range_paths :: "pydate list \<Rightarrow> string list" where
  \<comment> \<open>the paths that the two loops visit, in their order\<close>
  "range_paths dates =
     concat (map (\<lambda>curr_date.
        map (\<lambda>t. path_of_date curr_date @ ''/'' @ filename_of curr_date t) inittime) dates)"

fun download_paths ::
  "(nat \<Rightarrow> retr_outcome) \<Rightarrow> string \<Rightarrow> string list \<Rightarrow> string option \<Rightarrow> disk
     \<Rightarrow> (raised + string option \<times> bool) option \<times> disk" where
  \<comment> \<open>the body of the inner loop over a list of whole paths\<close>
  "download_paths net logfilename [] break_file w = (None, w)"
| "download_paths net logfilename (p # ps) break_file w =
     (let w1 = (if files w p \<noteq> None \<and> break_file = Some p
                then w\<lparr>files := (files w)(p := None)\<rparr> else w)
      in if files w1 p \<noteq> None
         then download_paths net logfilename ps break_file w1
         else
          (let w2 = w1\<lparr>files := (files w1)(p \<mapsto> Partial), retr_count := Suc (retr_count w1)\<rparr>
           in case net (retr_count w1) of
                Retrieved \<Rightarrow>
                  download_paths net logfilename ps break_file
                    (print_log (DownloadSpeed p) logfilename
                       (w2\<lparr>files := (files w2)(p \<mapsto> Complete)\<rparr>))
              | EOFError \<Rightarrow>
                  (Some (Inr (Some p, True)), print_log (EOFDisconnected p) logfilename w2)
              | ConnectionResetError \<Rightarrow>
                  (Some (Inr (Some p, True)), print_log (ConnectionReset p) logfilename w2)
              | OtherError \<Rightarrow> (Some (Inl TransferError), w2)))"

definition attempted :: "string \<Rightarrow> file_state \<Rightarrow> disk \<Rightarrow> disk" where
  \<comment> \<open>the disk after a \<open>RETR\<close> of \<open>p\<close> that left it in state \<open>st\<close>\<close>
  "attempted p st w = w\<lparr>retr_count := Suc (retr_count w), files := (files w)(p \<mapsto> st)\<rparr>"

subsection \<open>Concrete surroundings for evaluating the model\<close>

definition empty_disk :: disk where
  "empty_disk = \<lparr>files = (\<lambda>p. None), log_file = [], retr_count = 0,
                 sessions_opened = 0, sessions_quit = 0\<rparr>"

definition good_server :: server where
  \<comment> \<open>every session can be opened and closed\<close>
  "good_server = \<lparr>ftp_login = (\<lambda>n. True), ftp_quit = (\<lambda>n. True)\<rparr>"


definition flaky_net :: "nat \<Rightarrow> retr_outcome" where
  \<comment> \<open>the second and the third retrieval are cut off\<close>
  "flaky_net n = (if n = 1 then EOFError else if n = 2 then ConnectionResetError else Retrieved)"

definition file_00 :: string where
  "file_00 = ''GEFSv12/reanalysis/FV3_reanalysis/2004/01/31/gec00.t00z.pgrb2.20040131.0p25.f000''"

definition file_06 :: string where
  "file_06 = ''GEFSv12/reanalysis/FV3_reanalysis/2004/01/31/gec00.t06z.pgrb2.20040131.0p25.f000''"







definition first_pass :: "(raised + string option \<times> bool) \<times> disk" where
  \<comment> \<open>the first session of a run over two days on an empty disk\<close>
  "first_pass =
     download good_server flaky_net ''20040131'' ''20040201'' ''log'' None True empty_disk"





definition interrupted_disk :: disk where
  \<comment> \<open>a disk on which an earlier run was stopped by hand while it wrote the first file\<close>
  "interrupted_disk = empty_disk\<lparr>files := (\<lambda>p. if p = file_00 then Some Partial else None)\<rparr>"

section \<open>Properties of the valid time\<close>

lemma dt_ceil_round_up: "0 < u \<Longrightarrow> dt_ceil x u = spec_round_up x u"
proof -
  assume u: "0 < u"
  have "- (real_of_int x / real_of_int u) = real_of_int (- x) / real_of_int u"
    by simp
  then have "\<lfloor>- (real_of_int x / real_of_int u)\<rfloor> = (- x) div u"
    by (simp only: floor_divide_of_int_eq)
  then have "\<lceil>real_of_int x / real_of_int u\<rceil> = - ((- x) div u)"
    by (simp add: ceiling_def)
  moreover have "(- x) mod u = - x - (- x) div u * u"
    by (simp add: minus_div_mult_eq_mod)
  ultimately show ?thesis
    by (simp add: dt_ceil_def spec_round_up_def)
qed

lemma valid_time_eq_spec: "valid_time t = spec_valid_time t"
  by (simp add: valid_time_def spec_valid_time_def Timedelta_H_def dt_ceil_round_up Let_def)

lemma dt_ceil_12H_cases:
  "dt_hour (dt_ceil x (Timedelta_H 12)) = 0 \<or> dt_hour (dt_ceil x (Timedelta_H 12)) = 12"
proof -
  let ?u = "43200000000000 :: int"
  have "?u dvd x + (- x) mod ?u"
    by (metis dvd_minus_iff minus_add_distrib minus_mod_eq_mult_div dvd_triv_left
        diff_conv_add_uminus)
  then obtain k where k: "x + (- x) mod ?u = ?u * k" ..
  have "(?u * k) div 3600000000000 = 12 * k" by simp
  then have "dt_hour (?u * k) = (12 * k) mod 24"
    by (simp add: dt_hour_def)
  moreover have "(12 * k) mod 24 = 0 \<or> (12 * k) mod 24 = (12::int)"
    by presburger
  ultimately show ?thesis
    using k by (simp add: dt_ceil_def Timedelta_H_def)
qed

lemma dt_hour_plus_12H: "dt_hour (x + Timedelta_H 12) = (dt_hour x + 12) mod 24"
proof -
  have "(x + 12 * 3600000000000) div 3600000000000 = x div 3600000000000 + 12"
    by simp
  then show ?thesis
    by (simp add: dt_hour_def Timedelta_H_def mod_add_left_eq)
qed

lemma dt_hour_valid_time: "dt_hour (valid_time t) = 12"
  using dt_ceil_12H_cases [of "t + Timedelta_H 6"]
  by (auto simp add: valid_time_def Let_def dt_hour_plus_12H)

lemma dt_ceil_ge: "0 < u \<Longrightarrow> x \<le> dt_ceil x u"
  by (simp add: dt_ceil_def)

lemma dt_ceil_less: "0 < u \<Longrightarrow> dt_ceil x u < x + u"
  by (simp add: dt_ceil_def)

lemma valid_time_later: "t < valid_time t"
proof -
  have "t + Timedelta_H 6 \<le> dt_ceil (t + Timedelta_H 6) (Timedelta_H 12)"
    by (rule dt_ceil_ge) (simp add: Timedelta_H_def)
  then show ?thesis
    by (auto simp add: valid_time_def Let_def Timedelta_H_def)
qed

lemma valid_time_in_range: "valid_time t \<le> t + Timedelta_H 30"
proof -
  have "dt_ceil (t + Timedelta_H 6) (Timedelta_H 12) < t + Timedelta_H 6 + Timedelta_H 12"
    by (rule dt_ceil_less) (simp add: Timedelta_H_def)
  then show ?thesis
    by (auto simp add: valid_time_def Let_def Timedelta_H_def)
qed

lemma observation_valid_time_extend:
  "observation_valid_time (report.extend row (valid_report.fields v)) = v"
  by (simp add: report.defs valid_report.defs)

lemma observation_datetime_extend:
  "observation_datetime (report.extend row (valid_report.fields v)) = observation_datetime row"
  by (cases row) (simp add: report.defs valid_report.defs)

text \<open>
  C1. For every row of the table, the valid time that \<open>find_valid_time\<close> assigns is the
  observation time plus 6 hours, rounded up to a 12-hour boundary, and pushed on by another
  12 hours when the rounded time is at hour 0. An observation at 2016-05-18 05:00 gets
  2016-05-18 12:00, one at 2016-05-18 15:00 gets 2016-05-19 12:00, and no valid time is at
  hour 0.
\<close>

theorem find_valid_time_spec:
  "map observation_valid_time (find_valid_time df)
     = map (\<lambda>row. spec_valid_time (observation_datetime row)) df
   \<and> valid_time (Timestamp 2016 5 18 5 0) = Timestamp 2016 5 18 12 0
   \<and> valid_time (Timestamp 2016 5 18 15 0) = Timestamp 2016 5 19 12 0
   \<and> dt_hour (valid_time t) \<noteq> 0"
proof -
  have "map observation_valid_time (find_valid_time df)
     = map (\<lambda>row. spec_valid_time (observation_datetime row)) df"
    by (simp add: find_valid_time_def observation_valid_time_extend valid_time_eq_spec comp_def)
  moreover have "valid_time (Timestamp 2016 5 18 5 0) = Timestamp 2016 5 18 12 0"
    by (simp add: valid_time_def Timestamp_def days_from_civil_def dt_ceil_def dt_hour_def
        Timedelta_H_def Let_def)
  moreover have "valid_time (Timestamp 2016 5 18 15 0) = Timestamp 2016 5 19 12 0"
    by (simp add: valid_time_def Timestamp_def days_from_civil_def dt_ceil_def dt_hour_def
        Timedelta_H_def Let_def)
  moreover have "dt_hour (valid_time t) \<noteq> 0"
    by (simp add: dt_hour_valid_time)
  ultimately show ?thesis by blast
qed

text \<open>
  C9. The valid time of every row is strictly later than the observation time of that row,
  and its hour of the day is 12.
\<close>

theorem find_valid_time_12Z:
  "list_all (\<lambda>row. observation_datetime row < observation_valid_time row
                   \<and> dt_hour (observation_valid_time row) = 12) (find_valid_time df)
   \<and> map observation_datetime (find_valid_time df) = map observation_datetime df
   \<and> t < valid_time t \<and> dt_hour (valid_time t) = 12"
proof -
  have "list_all (\<lambda>row. observation_datetime row < observation_valid_time row
                   \<and> dt_hour (observation_valid_time row) = 12) (find_valid_time df)"
    by (simp add: find_valid_time_def list_all_iff observation_valid_time_extend
        observation_datetime_extend valid_time_later dt_hour_valid_time)
  moreover have "map observation_datetime (find_valid_time df) = map observation_datetime df"
    by (simp add: find_valid_time_def observation_datetime_extend comp_def)
  ultimately show ?thesis
    by (simp add: valid_time_later dt_hour_valid_time)
qed

section \<open>Properties of the floating-point operations\<close>

lemma round_half_even_of_int: "round_half_even (of_int j) = j"
  by (simp add: round_half_even_def)


text \<open>A real with a numerator below 2 to the 53 over a power of two is a binary64 number.\<close>

lemma round64_exact:
  assumes x: "x = of_int n / 2 ^ k" and n: "\<bar>n\<bar> < 2 ^ 53" and k: "k \<le> 1074"
  shows "round64 x = Finite x"
proof (cases "x = 0")
  case True
  then show ?thesis by (simp add: round64_def)
next
  case False
  let ?e = "\<lfloor>log 2 \<bar>x\<bar>\<rfloor>"
  let ?u = "ulp_exponent x"
  from False have pos: "0 < \<bar>x\<bar>" by simp
  have absx: "\<bar>x\<bar> = real_of_int \<bar>n\<bar> / 2 ^ k"
    by (simp add: x abs_divide)
  have "2 powr of_int ?e \<le> \<bar>x\<bar>"
    using floor_log_eq_powr_iff [of "\<bar>x\<bar>" 2 ?e] pos by simp
  moreover have "\<bar>x\<bar> < 2 powr (53 - real k)"
  proof -
    note absx
    also have "real_of_int \<bar>n\<bar> / 2 ^ k < 2 ^ 53 / 2 ^ k"
      using n by (intro divide_strict_right_mono) (simp_all add: of_int_less_iff [where 'a = real, symmetric] del: of_int_less_iff)
    also have "\<dots> = 2 powr (53 - real k)"
      by (simp add: powr_diff powr_realpow)
    finally show ?thesis .
  qed
  ultimately have "2 powr of_int ?e < (2::real) powr (53 - real k)"
    by (rule le_less_trans)
  then have "real_of_int ?e < 53 - real k"
    by (simp only: powr_less_cancel_iff [of 2] one_less_numeral_iff semiring_norm)
  then have "?e < 53 - int k"
    by linarith
  then have u: "?u \<le> - int k"
    using k by (simp add: ulp_exponent_def)
  define j where "j = nat (- int k - ?u)"
  have ju: "?u = - int k - int j"
    using u by (simp add: j_def)
  have "real_of_int ?u = - (real k + real j)"
    by (simp add: ju)
  then have "(2::real) powr of_int ?u = 1 / (2 ^ k * 2 ^ j)"
    by (simp only: powr_minus_divide powr_add powr_realpow zero_less_numeral)
  then have div: "x / 2 powr of_int ?u = of_int (n * 2 ^ j)"
    and mul: "of_int (n * 2 ^ j) * 2 powr of_int ?u = x"
    by (simp_all add: x)
  have "\<bar>x\<bar> \<le> real_of_int \<bar>n\<bar>"
    unfolding absx by (simp add: divide_le_eq mult_le_cancel_left1 of_int_abs [symmetric] del: of_int_abs)
  also have "real_of_int \<bar>n\<bar> < 2 ^ 53"
    using n by (simp add: of_int_less_iff [where 'a = real, symmetric] del: of_int_less_iff)
  also have "(2::real) ^ 53 \<le> 2 ^ 1024"
    by (rule power_increasing) simp_all
  finally have small: "\<not> 2 ^ 1024 \<le> \<bar>x\<bar>"
    by simp
  show ?thesis
    using False small
    by (simp add: round64_def Let_def div round_half_even_of_int mul del: of_int_mult of_int_power)
qed

lemma float_add_exact:
  assumes "a + b = of_int n / 2 ^ k" and "\<bar>n\<bar> < 2 ^ 53" and "k \<le> 1074"
  shows "float_add (Finite a) (Finite b) = Finite (a + b)"
  using round64_exact [OF assms] by simp

lemma float_sub_exact:
  assumes "a - b = of_int n / 2 ^ k" and "\<bar>n\<bar> < 2 ^ 53" and "k \<le> 1074"
  shows "float_sub (Finite a) (Finite b) = Finite (a - b)"
  using round64_exact [OF assms] by (simp add: float_sub_def)

subsection \<open>Longitudes on which no step rounds\<close>

lemma floored_mod_range:
  fixes a :: real
  shows "0 \<le> a - 360 * of_int \<lfloor>a / 360\<rfloor> \<and> a - 360 * of_int \<lfloor>a / 360\<rfloor> < 360"
proof -
  have lo: "360 * real_of_int \<lfloor>a / 360\<rfloor> \<le> a"
    using of_int_floor_le [of "a / 360"] by linarith
  have hi: "a < 360 * real_of_int \<lfloor>a / 360\<rfloor> + 360"
    using real_of_int_floor_add_one_gt [of "a / 360"] by linarith
  from lo hi show ?thesis by simp
qed

lemma spec_normalize_range: "- 180 \<le> spec_normalize x \<and> spec_normalize x < 180"
  using floored_mod_range [of "x + 180"] by (simp add: spec_normalize_def)


text \<open>
  On a multiple of 2 to the -43 no step of \<open>np.mod\<close> by 360 rounds: the remainder of the
  floored division has a numerator below 360 times 2 to the 43.
\<close>

lemma np_mod_360_exact:
  fixes N :: int
  defines "a \<equiv> real_of_int N / 2 ^ 43"
  shows "np_mod (Finite a) (Finite 360) = Finite (a - 360 * of_int \<lfloor>a / 360\<rfloor>)"
proof -
  let ?q = "\<lfloor>a / 360\<rfloor>"
  let ?m = "a - 360 * of_int ?q"
  have range: "0 \<le> ?m" "?m < 360"
    using floored_mod_range [of a] by simp_all
  have m_form: "?m = of_int (N - 360 * ?q * 2 ^ 43) / 2 ^ 43"
    by (simp add: a_def field_simps)
  have "real_of_int (N - 360 * ?q * 2 ^ 43) = ?m * 2 ^ 43"
    by (simp add: a_def field_simps)
  with range have "real_of_int 0 \<le> real_of_int (N - 360 * ?q * 2 ^ 43)"
    and "real_of_int (N - 360 * ?q * 2 ^ 43) < real_of_int (360 * 2 ^ 43)"
    by simp_all
  then have "0 \<le> N - 360 * ?q * 2 ^ 43" and "N - 360 * ?q * 2 ^ 43 < 360 * 2 ^ 43"
    by (simp_all only: of_int_le_iff of_int_less_iff)
  then have num: "\<bar>N - 360 * ?q * 2 ^ 43\<bar> < 2 ^ 53"
    by simp
  have exact: "round64 ?m = Finite ?m"
    by (rule round64_exact [OF m_form num]) simp
  show ?thesis
  proof (cases "a / 360 < 0")
    case False
    then have "c_fmod a 360 = ?m"
      by (simp add: c_fmod_def)
    with range show ?thesis
      by (simp add: Let_def)
  next
    case True
    show ?thesis
    proof (cases "of_int ?q = a / 360")
      case True
      then have "\<lceil>a / 360\<rceil> = ?q"
        by (metis ceiling_of_int)
      with \<open>a / 360 < 0\<close> have "c_fmod a 360 = ?m"
        by (simp add: c_fmod_def)
      moreover from True have "?m = 0"
        by simp
      ultimately show ?thesis
        by (simp add: Let_def)
    next
      case False
      then have "\<lceil>a / 360\<rceil> = ?q + 1"
        by (simp add: ceiling_altdef)
      with \<open>a / 360 < 0\<close> have c: "c_fmod a 360 = ?m - 360"
        by (simp add: c_fmod_def algebra_simps)
      from False have "?m \<noteq> 0"
        by (simp add: field_simps)
      with range c exact show ?thesis
        by (simp add: Let_def)
    qed
  qed
qed

lemma normalize_longitude_exact:
  assumes "dyadic_longitude (Finite x)"
  shows "normalize_longitude (Finite x) = Finite (spec_normalize x)
           \<and> dyadic_longitude (Finite (spec_normalize x))"
proof -
  from assms have mag: "\<bar>x\<bar> \<le> 512" and int: "of_int \<lfloor>x * 2 ^ 43\<rfloor> = x * 2 ^ 43"
    by (simp_all add: dyadic_longitude_def del: of_int_floor_cancel)
  define n where "n = \<lfloor>x * 2 ^ 43\<rfloor>"
  have "x * 2 ^ 43 = of_int n"
    using int by (simp only: n_def)
  then have x: "x = of_int n / 2 ^ 43"
    by (simp add: field_simps)
  have "real_of_int \<bar>n\<bar> \<le> real_of_int (512 * 2 ^ 43)"
    using mag by (simp add: x abs_divide field_simps)
  then have n: "\<bar>n\<bar> \<le> 512 * 2 ^ 43"
    by (simp only: of_int_le_iff)
  let ?a = "x + 180"
  have a_form: "?a = of_int (n + 180 * 2 ^ 43) / 2 ^ 43"
    by (simp add: x field_simps)
  have "\<bar>n + 180 * 2 ^ 43\<bar> < 2 ^ 53"
    using n by simp
  then have add: "float_add (Finite x) (Finite 180) = Finite ?a"
    using a_form by (intro float_add_exact [where k = 43]) simp_all
  have modulo: "np_mod (Finite ?a) (Finite 360) = Finite (?a - 360 * of_int \<lfloor>?a / 360\<rfloor>)"
    unfolding a_form by (rule np_mod_360_exact)
  let ?q = "\<lfloor>?a / 360\<rfloor>"
  let ?m = "?a - 360 * of_int ?q"
  have range: "0 \<le> ?m" "?m < 360"
    using floored_mod_range [of ?a] by simp_all
  let ?M = "n + 180 * 2 ^ 43 - 360 * ?q * 2 ^ 43 - 180 * 2 ^ 43"
  have r_form: "?m - 180 = of_int ?M / 2 ^ 43"
    by (simp add: x field_simps)
  have "real_of_int ?M = (?m - 180) * 2 ^ 43"
    by (simp add: x field_simps)
  with range have "real_of_int (- (180 * 2 ^ 43)) \<le> real_of_int ?M"
    and "real_of_int ?M < real_of_int (180 * 2 ^ 43)"
    by simp_all
  then have M: "- (180 * 2 ^ 43) \<le> ?M" "?M < 180 * 2 ^ 43"
    by (simp_all only: of_int_le_iff of_int_less_iff)
  then have "\<bar>?M\<bar> < 2 ^ 53"
    by simp
  then have sub: "float_sub (Finite ?m) (Finite 180) = Finite (?m - 180)"
    using r_form by (intro float_sub_exact [where k = 43]) simp_all
  have result: "normalize_longitude (Finite x) = Finite (spec_normalize x)"
    unfolding normalize_longitude_def add modulo sub spec_normalize_def by simp
  have "spec_normalize x = of_int ?M / 2 ^ 43"
    using r_form by (simp add: spec_normalize_def)
  then have "spec_normalize x * 2 ^ 43 = of_int ?M"
    by simp
  then have "of_int \<lfloor>spec_normalize x * 2 ^ 43\<rfloor> = spec_normalize x * 2 ^ 43"
    by (simp only: floor_of_int)
  moreover have "\<bar>spec_normalize x\<bar> \<le> 512"
    using spec_normalize_range [of x] by linarith
  ultimately have "dyadic_longitude (Finite (spec_normalize x))"
    by (simp add: dyadic_longitude_def)
  with result show ?thesis
    by simp
qed

section \<open>Properties of the reforecast pipeline\<close>

subsection \<open>The selection window\<close>












subsection \<open>Validation\<close>







subsection \<open>Enumeration of the object keys\<close>

lemma length_concat_map_uniform:
  "(\<And>x. x \<in> set xs \<Longrightarrow> length (g x) = n) \<Longrightarrow> length (concat (map g xs)) = length xs * n"
  by (induction xs) simp_all

lemma nth_concat_map_uniform:
  "(\<And>x. x \<in> set xs \<Longrightarrow> length (g x) = n) \<Longrightarrow> i < length xs \<Longrightarrow> j < n
     \<Longrightarrow> concat (map g xs) ! (i * n + j) = g (xs ! i) ! j"
proof (induction xs arbitrary: i)
  case Nil
  then show ?case by simp
next
  case (Cons x xs)
  show ?case
  proof (cases i)
    case 0
    with Cons.prems show ?thesis by (simp add: nth_append)
  next
    case (Suc i')
    have "concat (map g xs) ! (i' * n + j) = g (xs ! i') ! j"
      using Cons.prems Suc by (intro Cons.IH) simp_all
    moreover have "length (g x) = n"
      using Cons.prems by simp
    ultimately show ?thesis
      using Suc by (simp add: nth_append)
  qed
qed

lemma index_in_block: "j < (m::nat) \<Longrightarrow> k < n \<Longrightarrow> j * n + k < m * n"
proof -
  assume "j < m" "k < n"
  then have "j * n + k < j * n + n" by simp
  also have "\<dots> = Suc j * n" by simp
  also have "\<dots> \<le> m * n"
    using \<open>j < m\<close> by (intro mult_le_mono1) simp
  finally show ?thesis .
qed

text \<open>The dates of a positive stride: the start, and every k-th day up to the end.\<close>

lemma stride_step: "0 < (k::int) \<Longrightarrow> (e - s) div k = (e - (s + k)) div k + 1"
proof -
  assume "0 < k"
  have "e - s = (e - (s + k)) + 1 * k" by simp
  then have "(e - s) div k = ((e - (s + k)) + 1 * k) div k" by simp
  also have "\<dots> = (e - (s + k)) div k + 1"
    using \<open>0 < k\<close> by (subst div_mult_self1) simp_all
  finally show ?thesis .
qed

lemma map_upt_nat_Suc:
  "0 \<le> (n::int) \<Longrightarrow> map f [0..<nat (n + 1)] = f 0 # map (\<lambda>i. f (Suc i)) [0..<nat n]"
proof -
  assume "0 \<le> n"
  then have "nat (n + 1) = Suc (nat n)" by simp
  then show ?thesis
    by (simp add: upt_conv_Cons map_Suc_upt [symmetric] del: upt_Suc)
qed

lemma date_range_up_stride:
  "0 < k \<Longrightarrow> date_range_up s e k = map (\<lambda>i. s + int i * k) [0..<nat ((e - s) div k + 1)]"
proof (induction s e k rule: date_range_up.induct)
  case (1 s e k)
  show ?case
  proof (cases "s \<le> e")
    case False
    with \<open>0 < k\<close> have "(e - s) div k < 0"
      by (simp add: div_neg_pos_less0)
    then have "nat ((e - s) div k + 1) = 0" by simp
    with False show ?thesis
      by (simp add: date_range_up.simps [of s e k])
  next
    case True
    with 1 have IH: "date_range_up (s + k) e k
        = map (\<lambda>i. s + k + int i * k) [0..<nat ((e - (s + k)) div k + 1)]"
      by simp
    from True \<open>0 < k\<close> have nonneg: "0 \<le> (e - s) div k"
      by (simp add: pos_imp_zdiv_nonneg_iff)
    have "map (\<lambda>i. s + int i * k) [0..<nat ((e - s) div k + 1)]
        = s # map (\<lambda>i. s + int (Suc i) * k) [0..<nat ((e - s) div k)]"
      using map_upt_nat_Suc [OF nonneg, of "\<lambda>i. s + int i * k"] by simp
    also have "map (\<lambda>i. s + int (Suc i) * k) [0..<nat ((e - s) div k)]
        = map (\<lambda>i. s + k + int i * k) [0..<nat ((e - (s + k)) div k + 1)]"
      using stride_step [OF \<open>0 < k\<close>, of e s] by (simp add: algebra_simps)
    finally show ?thesis
      using True \<open>0 < k\<close> IH by (simp add: date_range_up.simps [of s e k])
  qed
qed

lemma date_range_stride:
  "0 < k \<Longrightarrow> date_range lib s e k = Inr (map (\<lambda>i. s + int i * k) [0..<nat ((e - s) div k + 1)])"
  by (simp add: date_range_def date_range_up_stride)

text \<open>The text of a date has no slash, and a key is cut at its slashes in one way only.\<close>

lemma digit_char_not_slash: "0 \<le> n \<Longrightarrow> n < 10 \<Longrightarrow> digit_char n \<noteq> CHR ''/''"
proof -
  assume "0 \<le> n" "n < 10"
  show ?thesis
  proof
    assume "digit_char n = CHR ''/''"
    then have "(of_char (digit_char n) :: int) = of_char CHR ''/''"
      by simp
    then have "(48 + n) mod 256 = 47"
      by (simp add: digit_char_def)
    with \<open>0 \<le> n\<close> \<open>n < 10\<close> show False
      by simp
  qed
qed

lemma digits_no_slash: "0 \<le> n \<Longrightarrow> CHR ''/'' \<notin> set (digits n)"
proof (induction n rule: digits.induct)
  case (1 n)
  show ?case
  proof (cases "n < 10")
    case True
    with 1(2) show ?thesis
      using digit_char_not_slash [of n] by (simp add: digits.simps [of n])
  next
    case False
    with 1 have "CHR ''/'' \<notin> set (digits (n div 10))"
      by simp
    moreover have "digit_char (n mod 10) \<noteq> CHR ''/''"
      by (rule digit_char_not_slash) simp_all
    ultimately show ?thesis
      using False by (simp add: digits.simps [of n])
  qed
qed

lemma py_str_no_slash: "CHR ''/'' \<notin> set (py_str n)"
  by (simp add: py_str_def digits_no_slash)

lemma pad2_no_slash: "CHR ''/'' \<notin> set (pad2 n)"
  by (simp add: pad2_def py_str_no_slash)

lemma strftime_no_slash:
  "CHR ''/'' \<notin> set (strftime_Y dt)" "CHR ''/'' \<notin> set (strftime_Ymd00 dt)"
  by (simp_all add: strftime_Y_def strftime_Ymd00_def py_str_no_slash pad2_no_slash
      split: prod.splits)

lemma cut_at_separator:
  "x @ c # r = y @ c # t \<Longrightarrow> c \<notin> set x \<Longrightarrow> c \<notin> set y \<Longrightarrow> x = y \<and> r = t"
proof (induction x arbitrary: y)
  case Nil
  then show ?case by (cases y) auto
next
  case (Cons a x)
  then show ?case by (cases y) auto
qed

lemma object_key_text:
  "object_key dt var_name member days
     = ''noaa-gefs-retrospective/GEFSv12/reforecast/'' @ strftime_Y dt @ ''/''
         @ strftime_Ymd00 dt @ ''/'' @ member @ ''/'' @ days @ ''/'' @ var_name @ ''_''
         @ strftime_Ymd00 dt @ ''_'' @ member @ ''.grib2''"
  by (simp add: object_key_def S3_BUCKET_def BASE_S3_PREFIX_def)

lemma object_key_inj:
  assumes eq: "object_key dt v m days = object_key dt' v' m' days"
    and m: "CHR ''/'' \<notin> set m" "CHR ''/'' \<notin> set m'"
  shows "strftime_Ymd00 dt = strftime_Ymd00 dt' \<and> v = v' \<and> m = m'"
proof -
  let ?tail = "\<lambda>dt v m. days @ ''/'' @ v @ ''_'' @ strftime_Ymd00 dt @ ''_'' @ m @ ''.grib2''"
  from eq have "strftime_Y dt @ CHR ''/'' # (strftime_Ymd00 dt @ CHR ''/'' # (m @ CHR ''/'' # ?tail dt v m))
      = strftime_Y dt' @ CHR ''/'' # (strftime_Ymd00 dt' @ CHR ''/'' # (m' @ CHR ''/'' # ?tail dt' v' m'))"
    by (simp add: object_key_text)
  from cut_at_separator [OF this strftime_no_slash(1) strftime_no_slash(1)]
  have "strftime_Ymd00 dt @ CHR ''/'' # (m @ CHR ''/'' # ?tail dt v m)
      = strftime_Ymd00 dt' @ CHR ''/'' # (m' @ CHR ''/'' # ?tail dt' v' m')"
    by (rule conjunct2)
  note second = cut_at_separator [OF this strftime_no_slash(2) strftime_no_slash(2)]
  from second have stamp: "strftime_Ymd00 dt = strftime_Ymd00 dt'"
    by (rule conjunct1)
  from second have "m @ CHR ''/'' # ?tail dt v m = m' @ CHR ''/'' # ?tail dt' v' m'"
    by (rule conjunct2)
  note third = cut_at_separator [OF this m]
  from third have mm: "m = m'"
    by (rule conjunct1)
  from third have "?tail dt v m = ?tail dt' v' m'"
    by (rule conjunct2)
  with stamp mm have "v = v'"
    by simp
  with stamp mm show ?thesis
    by simp
qed

lemma sample_dates:
  "date_range_up (days_from_civil 2000 1 1) (days_from_civil 2000 1 8) 7
     = [days_from_civil 2000 1 1, days_from_civil 2000 1 8]"
  by code_simp

lemma sample_keys:
  "globbed_list [days_from_civil 2000 1 1, days_from_civil 2000 1 8]
       [''cape_sfc'', ''cin_sfc''] [''c00''] ''Days:1-10''
     = [''noaa-gefs-retrospective/GEFSv12/reforecast/2000/2000010100/c00/Days:1-10/cape_sfc_2000010100_c00.grib2'',
        ''noaa-gefs-retrospective/GEFSv12/reforecast/2000/2000010100/c00/Days:1-10/cin_sfc_2000010100_c00.grib2'',
        ''noaa-gefs-retrospective/GEFSv12/reforecast/2000/2000010800/c00/Days:1-10/cape_sfc_2000010800_c00.grib2'',
        ''noaa-gefs-retrospective/GEFSv12/reforecast/2000/2000010800/c00/Days:1-10/cin_sfc_2000010800_c00.grib2'']"
  by code_simp

text \<open>
  C4. The dates of a positive stride are the start date and every k-th day after it up to
  the end date. For these dates the orchestrator enumerates one object key for each
  triple of a date, a variable and a member: the list has as many keys as the product of
  the three counts, and at position (i * variables + j) * members + n, that is dates
  outermost and members innermost, stands the key of the i-th date, the j-th variable and
  the n-th member, made of the bucket, the prefix, the year and the day stamp of the
  date, the member, the range of days and the variable. Two triples with the same key
  have the same day stamp, the same variable and the same member, if no member contains
  a slash. Two dates, two variables and one member give four keys, date-major and
  variable-minor. The list is a function of its inputs.
\<close>

theorem globbed_list_cartesian:
  "(0 < k \<longrightarrow>
      date_range lib s e k = Inr (map (\<lambda>i. s + int i * k) [0..<nat ((e - s) div k + 1)]))
   \<and> length (globbed_list dts var_names members days)
       = length dts * length var_names * length members
   \<and> (i < length dts \<and> j < length var_names \<and> n < length members \<longrightarrow>
        globbed_list dts var_names members days
            ! ((i * length var_names + j) * length members + n)
          = ''noaa-gefs-retrospective/GEFSv12/reforecast/'' @ strftime_Y (dts ! i) @ ''/''
              @ strftime_Ymd00 (dts ! i) @ ''/'' @ members ! n @ ''/'' @ days @ ''/''
              @ var_names ! j @ ''_'' @ strftime_Ymd00 (dts ! i) @ ''_'' @ members ! n
              @ ''.grib2'')
   \<and> (object_key dt v m days = object_key dt' v' m' days
        \<and> CHR ''/'' \<notin> set m \<and> CHR ''/'' \<notin> set m' \<longrightarrow>
        strftime_Ymd00 dt = strftime_Ymd00 dt' \<and> v = v' \<and> m = m')
   \<and> globbed_list [d1, d2] [v1, v2] [m1] days
       = [object_key d1 v1 m1 days, object_key d1 v2 m1 days,
          object_key d2 v1 m1 days, object_key d2 v2 m1 days]
   \<and> date_range lib (days_from_civil 2000 1 1) (days_from_civil 2000 1 8) 7
       = Inr [days_from_civil 2000 1 1, days_from_civil 2000 1 8]
   \<and> globbed_list [days_from_civil 2000 1 1, days_from_civil 2000 1 8]
        [''cape_sfc'', ''cin_sfc''] [''c00''] ''Days:1-10''
       = [''noaa-gefs-retrospective/GEFSv12/reforecast/2000/2000010100/c00/Days:1-10/cape_sfc_2000010100_c00.grib2'',
          ''noaa-gefs-retrospective/GEFSv12/reforecast/2000/2000010100/c00/Days:1-10/cin_sfc_2000010100_c00.grib2'',
          ''noaa-gefs-retrospective/GEFSv12/reforecast/2000/2000010800/c00/Days:1-10/cape_sfc_2000010800_c00.grib2'',
          ''noaa-gefs-retrospective/GEFSv12/reforecast/2000/2000010800/c00/Days:1-10/cin_sfc_2000010800_c00.grib2'']"
proof -
  let ?inner = "\<lambda>dt var_name. map (\<lambda>member. object_key dt var_name member days) members"
  let ?mid = "\<lambda>dt. concat (map (?inner dt) var_names)"
  have dates: "0 < k \<longrightarrow>
      date_range lib s e k = Inr (map (\<lambda>i. s + int i * k) [0..<nat ((e - s) div k + 1)])"
    by (simp add: date_range_stride)
  have mid_len: "length (?mid dt) = length var_names * length members" for dt
    by (rule length_concat_map_uniform) simp
  have len: "length (globbed_list dts var_names members days)
     = length dts * length var_names * length members"
    unfolding globbed_list_def
    using length_concat_map_uniform [of dts ?mid "length var_names * length members"] mid_len
    by (simp add: mult.assoc)
  have nth: "globbed_list dts var_names members days
            ! ((i * length var_names + j) * length members + n)
          = object_key (dts ! i) (var_names ! j) (members ! n) days"
    if i: "i < length dts" and j: "j < length var_names" and n: "n < length members"
  proof -
    have jn: "j * length members + n < length var_names * length members"
      using j n by (rule index_in_block)
    have idx: "(i * length var_names + j) * length members + n
          = i * (length var_names * length members) + (j * length members + n)"
      by (simp add: algebra_simps)
    have outer: "concat (map ?mid dts)
            ! (i * (length var_names * length members) + (j * length members + n))
          = ?mid (dts ! i) ! (j * length members + n)"
      using i jn by (intro nth_concat_map_uniform mid_len)
    have "globbed_list dts var_names members days
            ! ((i * length var_names + j) * length members + n)
          = concat (map ?mid dts)
            ! (i * (length var_names * length members) + (j * length members + n))"
      by (simp only: globbed_list_def idx)
    also note outer
    also have "?mid (dts ! i) ! (j * length members + n) = ?inner (dts ! i) (var_names ! j) ! n"
      using j n by (intro nth_concat_map_uniform) simp_all
    also have "\<dots> = object_key (dts ! i) (var_names ! j) (members ! n) days"
      using n by simp
    finally show ?thesis .
  qed
  have four: "globbed_list [d1, d2] [v1, v2] [m1] days
       = [object_key d1 v1 m1 days, object_key d1 v2 m1 days,
          object_key d2 v1 m1 days, object_key d2 v2 m1 days]"
    by (simp add: globbed_list_def)
  have inj: "object_key dt v m days = object_key dt' v' m' days
        \<and> CHR ''/'' \<notin> set m \<and> CHR ''/'' \<notin> set m' \<longrightarrow>
        strftime_Ymd00 dt = strftime_Ymd00 dt' \<and> v = v' \<and> m = m'"
    using object_key_inj [of dt v m days dt' v' m'] by blast
  have sample: "date_range lib (days_from_civil 2000 1 1) (days_from_civil 2000 1 8) 7
       = Inr [days_from_civil 2000 1 1, days_from_civil 2000 1 8]"
    by (simp add: date_range_def sample_dates)
  from dates len nth [unfolded object_key_text] inj four sample sample_keys show ?thesis
    by (intro conjI impI) blast+
qed

theorem globbed_list_cartesian_witness:
  "(0::int) < 7
   \<and> date_range sample_library (days_from_civil 2000 1 1) (days_from_civil 2000 1 8) 7
       = Inr [days_from_civil 2000 1 1, days_from_civil 2000 1 1 + 7]
   \<and> (1::nat) < length [days_from_civil 2000 1 1, days_from_civil 2000 1 8]
   \<and> (0::nat) < length [''cape_sfc'', ''cin_sfc''] \<and> (0::nat) < length [''c00'']
   \<and> globbed_list [days_from_civil 2000 1 1, days_from_civil 2000 1 8]
        [''cape_sfc'', ''cin_sfc''] [''c00''] ''Days:1-10'' ! 2
       = ''noaa-gefs-retrospective/GEFSv12/reforecast/2000/2000010800/c00/Days:1-10/cape_sfc_2000010800_c00.grib2''
   \<and> length (globbed_list [days_from_civil 2000 1 1, days_from_civil 2000 1 8]
        [''cape_sfc'', ''cin_sfc''] [''c00''] ''Days:1-10'') = 4
   \<and> CHR ''/'' \<notin> set ''c00''
   \<and> object_key (days_from_civil 2000 1 8) ''cape_sfc'' ''c00'' ''Days:1-10''
       = object_key (days_from_civil 2000 1 8) ''cape_sfc'' ''c00'' ''Days:1-10''
   \<and> strftime_Ymd00 (days_from_civil 2000 1 8) = ''2000010800''"
proof -
  note T = globbed_list_cartesian [where lib = sample_library
      and s = "days_from_civil 2000 1 1" and e = "days_from_civil 2000 1 8" and k = 7
      and dts = "[days_from_civil 2000 1 1, days_from_civil 2000 1 8]"
      and var_names = "[''cape_sfc'', ''cin_sfc'']" and members = "[''c00'']"
      and days = "''Days:1-10''" and i = 1 and j = 0 and n = 0
      and dt = "days_from_civil 2000 1 8" and dt' = "days_from_civil 2000 1 8"
      and v = "''cape_sfc''" and v' = "''cape_sfc''" and m = "''c00''" and m' = "''c00''"]
  have span: "nat ((days_from_civil 2000 1 8 - days_from_civil 2000 1 1) div 7 + 1) = 2"
    by (simp add: days_from_civil_def)
  from T [THEN conjunct1] span
  have dates: "date_range sample_library (days_from_civil 2000 1 1) (days_from_civil 2000 1 8) 7
       = Inr [days_from_civil 2000 1 1, days_from_civil 2000 1 1 + 7]"
    by (simp add: upt_conv_Cons)
  have stamp: "strftime_Ymd00 (days_from_civil 2000 1 8) = ''2000010800''"
    by code_simp
  have year: "strftime_Y (days_from_civil 2000 1 8) = ''2000''"
    by code_simp
  from T [THEN conjunct2, THEN conjunct2, THEN conjunct1]
  have third: "globbed_list [days_from_civil 2000 1 1, days_from_civil 2000 1 8]
        [''cape_sfc'', ''cin_sfc''] [''c00''] ''Days:1-10'' ! 2
       = ''noaa-gefs-retrospective/GEFSv12/reforecast/2000/2000010800/c00/Days:1-10/cape_sfc_2000010800_c00.grib2''"
    by (simp add: stamp year eval_nat_numeral)
  from T [THEN conjunct2, THEN conjunct1]
  have len: "length (globbed_list [days_from_civil 2000 1 1, days_from_civil 2000 1 8]
        [''cape_sfc'', ''cin_sfc''] [''c00''] ''Days:1-10'') = 4"
    by simp
  from dates third len stamp show ?thesis
    by simp
qed

subsection \<open>Longitude\<close>




subsection \<open>The worker\<close>

lemma module_globals_no_os: "''os'' \<notin> set module_globals"
  by (simp add: module_globals_def)

lemma saved_file_path_of_module: "saved_file_path_of module_globals save_dir s3_prefix = Inl (NameError ''os'')"
  by (simp add: saved_file_path_of_def module_globals_no_os)

lemma worker_NameError:
  "download_and_process_grib module_globals lib s3_prefix la lo fd save_dir w
     = (Inl (NameError ''os''), w)"
  by (simp add: download_and_process_grib_def saved_file_path_of_module)

text \<open>
  C6. In the module as it is written the worker never reaches its test for the output
  file: line 128 looks up \<open>os\<close>, which the module does not bind, and raises a NameError,
  also when the output file of the key exists. Nothing is returned; the world is left as
  it was.
\<close>

theorem download_and_process_grib_NameError:
  "download_and_process_grib module_globals lib s3_prefix la lo fd save_dir w
     = (Inl (NameError ''os''), w)
   \<and> path_exists cached_world ''./reforecast_v3/cape_sfc_2000010100_c00.nc''
   \<and> saved_file_path_of (''os'' # module_globals) ''./reforecast_v3'' sample_key
       = Inr ''./reforecast_v3/cape_sfc_2000010100_c00.nc''
   \<and> download_and_process_grib module_globals sample_library sample_key
        (Finite 22, Finite 55) (Finite 230, Finite 291) (Finite (11 / 2), Finite (13 / 2))
        ''./reforecast_v3'' cached_world
       = (Inl (NameError ''os''), cached_world)"
proof -
  have "path_exists cached_world ''./reforecast_v3/cape_sfc_2000010100_c00.nc''"
    by (simp add: path_exists_def cached_world_def)
  moreover have "saved_file_path_of (''os'' # module_globals) ''./reforecast_v3'' sample_key
       = Inr ''./reforecast_v3/cape_sfc_2000010100_c00.nc''"
    by (simp add: saved_file_path_of_def sample_key_def os_path_join_def)
  ultimately show ?thesis
    by (simp add: worker_NameError)
qed

text \<open>
  With \<open>os\<close> bound, the worker does what C6 says: when the output file of the key exists
  it returns the path and leaves the world as it was, and a second call after a
  successful one returns the same path and changes nothing.
\<close>

lemma path_exists_write_file: "path_exists (write_file p ds w) p"
  by (simp add: path_exists_def write_file_def)

lemma worker_cached:
  "saved_file_path_of globals save_dir s3_prefix = Inr p \<Longrightarrow> path_exists w p \<Longrightarrow>
     download_and_process_grib globals lib s3_prefix la lo fd save_dir w = (Inr (Some p), w)"
  by (simp add: download_and_process_grib_def Let_def)

lemma try_to_open_grib_file_world:
  "try_to_open_grib_file lib path content w = (Some ds, w') \<Longrightarrow> w' = w"
  by (auto simp add: try_to_open_grib_file_def split: sum.splits)

lemma try_to_open_grib_file_None:
  "try_to_open_grib_file lib path content w = (None, w') \<Longrightarrow>
     \<exists>e. w' = log_error (OpenProblem path e) w"
  by (auto simp add: try_to_open_grib_file_def split: sum.splits)

lemma worker_success:
  assumes "download_and_process_grib globals lib s3_prefix la lo fd save_dir w = (Inr (Some p), w')"
  shows "saved_file_path_of globals save_dir s3_prefix = Inr p \<and> path_exists w' p"
  using assms
  by (auto simp add: download_and_process_grib_def Let_def path_exists_write_file
      split: sum.splits option.splits prod.splits if_splits)

lemma worker_rerun:
  assumes "download_and_process_grib globals lib s3_prefix la lo fd save_dir w = (Inr (Some p), w')"
  shows "download_and_process_grib globals lib s3_prefix la lo fd save_dir w' = (Inr (Some p), w')"
  using worker_success [OF assms] by (simp add: worker_cached)

lemma sample_run:
  "download_and_process_grib (''os'' # module_globals) sample_library sample_key
       (Finite 22, Finite 55) (Finite 230, Finite 291) (Finite (11 / 2), Finite (13 / 2))
       ''./reforecast_v3'' empty_world
     = (Inr (Some ''./reforecast_v3/cape_sfc_2000010100_c00.nc''), cached_world)"
proof -
  have "dyadic_longitude (Finite 230)" "dyadic_longitude (Finite 350)"
    by (simp_all add: dyadic_longitude_def)
  then have "normalize_longitude (Finite 230) = Finite (spec_normalize 230)"
    "normalize_longitude (Finite 350) = Finite (spec_normalize 350)"
    using normalize_longitude_exact by blast+
  moreover have "\<lfloor>(230 + 180) / 360 :: real\<rfloor> = 1" "\<lfloor>(350 + 180) / 360 :: real\<rfloor> = 1"
    by (simp_all add: floor_eq_iff)
  ultimately have lon: "normalize_longitude (Finite 230) = Finite (- 130)"
    "normalize_longitude (Finite 350) = Finite (- 10)"
    by (simp_all add: spec_normalize_def)
  have sel: "create_selection_dict sample_library (Finite 22, Finite 55) (Finite 230, Finite 291)
      (Finite (11 / 2), Finite (13 / 2))
    = Inr \<lparr>latitude = \<lparr>start = Finite 55, stop = Finite 22\<rparr>,
           longitude = \<lparr>start = Finite 230, stop = Finite 291\<rparr>,
           step = \<lparr>start = 475200000000000, stop = 561600000000000\<rparr>\<rparr>"
    by (simp add: create_selection_dict_def py_min_def py_max_def float_lt_def float_gt_def
        sample_library_def sample_format_float_def sample_Timedelta_def)
  have path: "saved_file_path_of (''os'' # module_globals) ''./reforecast_v3'' sample_key
       = Inr ''./reforecast_v3/cape_sfc_2000010100_c00.nc''"
    by (simp add: saved_file_path_of_def sample_key_def os_path_join_def)
  show ?thesis
    unfolding download_and_process_grib_def path sel
    by (simp add: sample_key_def os_path_join_def path_exists_def empty_world_def
        sample_library_def Let_def try_to_open_grib_file_def process_dataset_def
        assign_longitude_def sample_dataset_def lon write_file_def cached_world_def)
qed

text \<open>
  The worker on a failing step. With \<open>os\<close> bound, the selection built and the file system
  and the temporary directory created, every failure of the fetch, of both decoders, of
  the processing or of the write is caught: the worker returns \<open>None\<close>, one entry is
  added to the log and no local file changes. What the worker raises to its caller is
  the NameError of line 128, what \<open>pd.Timedelta\<close> raises at line 132 or the constructor
  of the file system at line 133, both outside the \<open>try\<close>, and the UnboundLocalError of
  the handler at line 159, which names \<open>grib_file\<close> when \<open>TemporaryDirectory()\<close> has
  raised before the assignment of line 136.
\<close>

lemma worker_never_raises:
  assumes "''os'' \<in> set globals" and "create_selection_dict lib la lo fd = Inr sd"
    and "S3FileSystem lib = None" and "TemporaryDirectory lib = Inr t"
  shows "\<exists>r w'. download_and_process_grib globals lib s3_prefix la lo fd save_dir w = (Inr r, w')
           \<and> (r = None \<longrightarrow> local_files w' = local_files w
                 \<and> (\<exists>m. error_log w' = error_log w @ [m]))"
  using assms
  by (auto simp add: download_and_process_grib_def saved_file_path_of_def Let_def log_error_def
      try_to_open_grib_file_def split: sum.splits option.splits prod.splits)

lemma worker_raises_only:
  assumes "fst (download_and_process_grib globals lib s3_prefix la lo fd save_dir w) = Inl x"
  shows "(x = NameError ''os'' \<and> ''os'' \<notin> set globals)
     \<or> create_selection_dict lib la lo fd = Inl x
     \<or> S3FileSystem lib = Some x
     \<or> (x = UnboundLocalError \<and> (\<exists>e. TemporaryDirectory lib = Inl e))"
  using assms
  by (auto simp add: download_and_process_grib_def saved_file_path_of_def Let_def
      split: sum.splits option.splits prod.splits if_splits)

lemma worker_fetch_failure:
  assumes "saved_file_path_of globals save_dir s3_prefix = Inr p" and "\<not> path_exists w p"
    and "create_selection_dict lib la lo fd = Inr sd" and "S3FileSystem lib = None"
    and "TemporaryDirectory lib = Inr t" and "s3_read lib s3_prefix = Inl e"
  shows "fst (download_and_process_grib globals lib s3_prefix la lo fd save_dir w) = Inr None"
  using assms by (simp add: download_and_process_grib_def Let_def)

lemma worker_decode_failure:
  assumes "saved_file_path_of globals save_dir s3_prefix = Inr p" and "\<not> path_exists w p"
    and "create_selection_dict lib la lo fd = Inr sd" and "S3FileSystem lib = None"
    and "TemporaryDirectory lib = Inr t" and "s3_read lib s3_prefix = Inr content"
    and "xr_open_dataset lib content = Inl e" and "cfgrib_open_datasets lib content = Inl e2"
  shows "fst (download_and_process_grib globals lib s3_prefix la lo fd save_dir w) = Inr None"
  using assms by (simp add: download_and_process_grib_def Let_def try_to_open_grib_file_def)

lemma worker_processing_failure:
  assumes "saved_file_path_of globals save_dir s3_prefix = Inr p" and "\<not> path_exists w p"
    and "create_selection_dict lib la lo fd = Inr sd" and "S3FileSystem lib = None"
    and "TemporaryDirectory lib = Inr t" and "s3_read lib s3_prefix = Inr content"
    and "try_to_open_grib_file lib (os_path_join t (last (split_on CHR ''/'' s3_prefix)))
           content (w\<lparr>s3_requests := s3_requests w @ [s3_prefix]\<rparr>) = (Some ds, w2)"
    and "process_dataset lib sd (last (split_on CHR ''/'' s3_prefix)) ds = Inl e
         \<or> (\<exists>ds'. process_dataset lib sd (last (split_on CHR ''/'' s3_prefix)) ds = Inr ds'
               \<and> to_netcdf lib ds' p \<noteq> None)"
  shows "fst (download_and_process_grib globals lib s3_prefix la lo fd save_dir w) = Inr None"
  using assms by (auto simp add: download_and_process_grib_def Let_def)

lemma worker_tempdir_failure:
  assumes "saved_file_path_of globals save_dir s3_prefix = Inr p" and "\<not> path_exists w p"
    and "create_selection_dict lib la lo fd = Inr sd" and "S3FileSystem lib = None"
    and "TemporaryDirectory lib = Inl e"
  shows "download_and_process_grib globals lib s3_prefix la lo fd save_dir w
           = (Inl UnboundLocalError, w)"
  using assms by (simp add: download_and_process_grib_def Let_def)

lemma worker_Timedelta_failure:
  assumes "saved_file_path_of globals save_dir s3_prefix = Inr p" and "\<not> path_exists w p"
    and "create_selection_dict lib la lo fd = Inl e"
  shows "download_and_process_grib globals lib s3_prefix la lo fd save_dir w = (Inl e, w)"
  using assms by (simp add: download_and_process_grib_def Let_def)

text \<open>
  The batch as the worker's signature asks for it, every argument given and the
  conditions above met: it completes whatever fails inside a worker.
\<close>

lemma Parallel_workers_complete:
  assumes "''os'' \<in> set globals" and "create_selection_dict lib la lo fd = Inr sd"
    and "S3FileSystem lib = None" and "TemporaryDirectory lib = Inr t"
  shows "\<exists>rs w'. Parallel (map (\<lambda>f. download_and_process_grib globals lib f la lo fd save_dir) keys) w
           = (Inr rs, w') \<and> length rs = length keys"
proof (induction keys arbitrary: w)
  case Nil
  show ?case by simp
next
  case (Cons key keys)
  obtain r w1 where r: "download_and_process_grib globals lib key la lo fd save_dir w = (Inr r, w1)"
    using worker_never_raises [OF assms] by blast
  obtain rs w2 where
    "Parallel (map (\<lambda>f. download_and_process_grib globals lib f la lo fd save_dir) keys) w1
       = (Inr rs, w2)"
    "length rs = length keys"
    using Cons.IH by blast
  with r show ?case by simp
qed

text \<open>The batch as line 201 dispatches it, the key alone given to the worker.\<close>

lemma Parallel_TypeError:
  "keys \<noteq> [] \<Longrightarrow>
     Parallel (map (\<lambda>f. call_download_and_process_grib globals lib f None None None None) keys) w
       = (Inl TypeError, w)"
  by (cases keys) (simp_all add: call_download_and_process_grib_def)

lemma days_prefix_found:
  "\<exists>days. map_of DAYS_PREFIX (if float_lt (py_max fd) (Finite 10) then ''1-10'' else ''10-16'')
      = Some days"
  by (simp add: DAYS_PREFIX_def)

lemma orchestrator_TypeError:
  assumes "validate_bounds la lo fd = None"
    and "date_range lib start_date end_date date_frequency = Inr dts"
    and "dts \<noteq> []" and "var_names \<noteq> []" and "members \<noteq> []"
  shows "get_and_process_reforecast_data globals lib start_date end_date date_frequency members
           var_names la lo fd local_save_dir final_save_path w = (Inl TypeError, w)"
proof -
  obtain days where days:
    "map_of DAYS_PREFIX (if float_lt (py_max fd) (Finite 10) then ''1-10'' else ''10-16'')
       = Some days"
    using days_prefix_found by blast
  have "length (globbed_list dts var_names members days) \<noteq> 0"
    using assms(3-5) length_concat_map_uniform [of var_names
        "\<lambda>var_name. map (\<lambda>member. object_key dt var_name member days) members" "length members" for dt]
      length_concat_map_uniform [of dts
        "\<lambda>dt. concat (map (\<lambda>var_name. map (\<lambda>member. object_key dt var_name member days) members)
                  var_names)" "length var_names * length members"]
    by (simp add: globbed_list_def)
  then have "globbed_list dts var_names members days \<noteq> []"
    by simp
  then show ?thesis
    using assms(1,2) days by (simp add: get_and_process_reforecast_data_def Parallel_TypeError)
qed

text \<open>With no key to dispatch the orchestrator raises the NameError of line 203.\<close>

lemma orchestrator_NameError:
  assumes "validate_bounds la lo fd = None"
    and "date_range lib start_date end_date date_frequency = Inr dts"
    and "dts = [] \<or> var_names = [] \<or> members = []"
  shows "get_and_process_reforecast_data module_globals lib start_date end_date date_frequency
           members var_names la lo fd local_save_dir final_save_path w
           = (Inl (NameError ''os''), w)"
proof -
  obtain days where days:
    "map_of DAYS_PREFIX (if float_lt (py_max fd) (Finite 10) then ''1-10'' else ''10-16'')
       = Some days"
    using days_prefix_found by blast
  have "globbed_list dts var_names members days = []"
    using assms(3) by (auto simp add: globbed_list_def)
  then show ?thesis
    using assms(1,2) days
    by (simp add: get_and_process_reforecast_data_def module_globals_no_os)
qed

text \<open>
  C7. Run on one date, one variable and one member with bounds that pass validation, the
  orchestrator does not complete: its one job raises a TypeError, since line 201 calls
  the worker with the object key alone, and nothing is fetched or merged.
\<close>

theorem batch_raises_TypeError:
  "get_and_process_reforecast_data module_globals sample_library (days_from_civil 2000 1 1)
       (days_from_civil 2000 1 1) 1 [''c00''] [''cape_sfc'']
       (Finite 22, Finite 55) (Finite 230, Finite 291) (Finite (11 / 2), Finite (13 / 2))
       ''./reforecast_v3'' ''./combined.nc'' empty_world
     = (Inl TypeError, empty_world)"
proof -
  have dates: "date_range sample_library (days_from_civil 2000 1 1) (days_from_civil 2000 1 1) 1
          = Inr [days_from_civil 2000 1 1]"
    by (simp add: date_range_def date_range_up.simps [of "days_from_civil 2000 1 1"]
        date_range_up.simps [of "days_from_civil 2000 1 1 + 1"])
  have valid: "validate_bounds (Finite 22, Finite 55) (Finite 230, Finite 291)
      (Finite (11 / 2), Finite (13 / 2)) = None"
    by (simp add: validate_bounds_def py_min_def py_max_def float_lt_def float_gt_def
        float_le_def float_ge_def)
  show ?thesis
    by (rule orchestrator_TypeError [OF valid dates]) simp_all
qed

section \<open>Properties of the reanalysis downloader\<close>

subsection \<open>One loop instead of two\<close>

lemma download_filenames_paths:
  "download_filenames net lf path fns bf w
     = download_paths net lf (map (\<lambda>f. path @ ''/'' @ f) fns) bf w"
  by (induction fns arbitrary: w) (auto simp add: Let_def split: retr_outcome.splits)

lemma download_paths_append:
  "download_paths net lf (xs @ ys) bf w
     = (case download_paths net lf xs bf w of
          (None, w') \<Rightarrow> download_paths net lf ys bf w'
        | (Some r, w') \<Rightarrow> (Some r, w'))"
  by (induction xs arbitrary: w) (auto simp add: Let_def split: retr_outcome.splits)

lemma download_dates_paths:
  "download_dates net lf dates bf w = download_paths net lf (range_paths dates) bf w"
proof (induction dates arbitrary: w)
  case Nil
  show ?case by (simp add: range_paths_def)
next
  case (Cons d dates)
  have "range_paths (d # dates)
      = map (\<lambda>f. path_of_date d @ ''/'' @ f) (map (filename_of d) inittime) @ range_paths dates"
    by (simp add: range_paths_def comp_def)
  then show ?case
    using Cons.IH
    by (simp add: download_filenames_paths download_paths_append split: prod.splits option.splits)
qed

lemma length_range_paths: "length (range_paths dates) = 4 * length dates"
  by (induction dates) (simp_all add: range_paths_def inittime_def)

lemma length_all_dates: "length (all_dates s e) = nat (e - s + 1)"
  by (simp add: all_dates_def)

subsection \<open>One step of the loop\<close>

lemma attempted_eq:
  "w\<lparr>files := (files w)(p \<mapsto> st), retr_count := Suc (retr_count w)\<rparr> = attempted p st w"
  "attempted p st (w\<lparr>files := (files w)(p := None)\<rparr>) = attempted p st w"
  "(attempted p st w)\<lparr>files := (files (attempted p st w))(p \<mapsto> st')\<rparr> = attempted p st' w"
  by (cases w; simp add: attempted_def)+

lemma download_paths_skip:
  "files w p \<noteq> None \<Longrightarrow> bf \<noteq> Some p \<Longrightarrow>
     download_paths net lf (p # ps) bf w = download_paths net lf ps bf w"
  by (simp add: Let_def)

lemma download_paths_attempt:
  "files w p = None \<or> bf = Some p \<Longrightarrow>
     download_paths net lf (p # ps) bf w
       = (case net (retr_count w) of
            Retrieved \<Rightarrow>
              download_paths net lf ps bf (print_log (DownloadSpeed p) lf (attempted p Complete w))
          | EOFError \<Rightarrow>
              (Some (Inr (Some p, True)), print_log (EOFDisconnected p) lf (attempted p Partial w))
          | ConnectionResetError \<Rightarrow>
              (Some (Inr (Some p, True)), print_log (ConnectionReset p) lf (attempted p Partial w))
          | OtherError \<Rightarrow> (Some (Inl TransferError), attempted p Partial w))"
  by (auto simp add: Let_def attempted_eq split: retr_outcome.splits)


declare download_paths.simps(2) [simp del]

lemma download_paths_induct [case_names Nil skip retrieved eof reset other]:
  assumes "\<And>w. P [] w (None, w)"
    and "\<And>p ps w. files w p \<noteq> None \<Longrightarrow> bf \<noteq> Some p
           \<Longrightarrow> P ps w (download_paths net lf ps bf w)
           \<Longrightarrow> P (p # ps) w (download_paths net lf ps bf w)"
    and "\<And>p ps w. files w p = None \<or> bf = Some p \<Longrightarrow> net (retr_count w) = Retrieved
           \<Longrightarrow> P ps (print_log (DownloadSpeed p) lf (attempted p Complete w))
                 (download_paths net lf ps bf (print_log (DownloadSpeed p) lf (attempted p Complete w)))
           \<Longrightarrow> P (p # ps) w
                 (download_paths net lf ps bf (print_log (DownloadSpeed p) lf (attempted p Complete w)))"
    and "\<And>p ps w. files w p = None \<or> bf = Some p \<Longrightarrow> net (retr_count w) = EOFError
           \<Longrightarrow> P (p # ps) w
                 (Some (Inr (Some p, True)), print_log (EOFDisconnected p) lf (attempted p Partial w))"
    and "\<And>p ps w. files w p = None \<or> bf = Some p \<Longrightarrow> net (retr_count w) = ConnectionResetError
           \<Longrightarrow> P (p # ps) w
                 (Some (Inr (Some p, True)), print_log (ConnectionReset p) lf (attempted p Partial w))"
    and "\<And>p ps w. files w p = None \<or> bf = Some p \<Longrightarrow> net (retr_count w) = OtherError
           \<Longrightarrow> P (p # ps) w (Some (Inl TransferError), attempted p Partial w)"
  shows "P ps w (download_paths net lf ps bf w)"
proof (induction ps arbitrary: w)
  case Nil
  show ?case using assms(1) by simp
next
  case (Cons p ps)
  show ?case
  proof (cases "files w p \<noteq> None \<and> bf \<noteq> Some p")
    case True
    then show ?thesis
      using assms(2) [of w p ps] Cons.IH [of w] by (simp add: download_paths_skip)
  next
    case False
    then have att: "files w p = None \<or> bf = Some p" by blast
    show ?thesis
    proof (cases "net (retr_count w)")
      case Retrieved
      with att show ?thesis
        using assms(3) [of w p ps] Cons.IH by (simp add: download_paths_attempt)
    next
      case EOFError
      with att show ?thesis
        using assms(4) [of w p ps] by (simp add: download_paths_attempt)
    next
      case ConnectionResetError
      with att show ?thesis
        using assms(5) [of w p ps] by (simp add: download_paths_attempt)
    next
      case OtherError
      with att show ?thesis
        using assms(6) [of w p ps] by (simp add: download_paths_attempt)
    qed
  qed
qed

lemma files_print_log [simp]: "files (print_log m lf w) = files w"
  and retr_count_print_log [simp]: "retr_count (print_log m lf w) = retr_count w"
  and sessions_print_log [simp]: "sessions_opened (print_log m lf w) = sessions_opened w"
    "sessions_quit (print_log m lf w) = sessions_quit w"
  by (simp_all add: print_log_def)

lemma files_attempted [simp]: "files (attempted p st w) = (files w)(p \<mapsto> st)"
  and retr_count_attempted [simp]: "retr_count (attempted p st w) = Suc (retr_count w)"
  and sessions_attempted [simp]: "sessions_opened (attempted p st w) = sessions_opened w"
    "sessions_quit (attempted p st w) = sessions_quit w"
  by (simp_all add: attempted_def)

subsection \<open>What one pass over the paths does\<close>

lemma download_paths_frame:
  "download_paths net lf ps bf w = (r, w') \<Longrightarrow> files w q \<noteq> None \<Longrightarrow> bf \<noteq> Some q
     \<Longrightarrow> files w' q = files w q"
proof -
  have "\<forall>q. files w q \<noteq> None \<and> bf \<noteq> Some q
          \<longrightarrow> files (snd (download_paths net lf ps bf w)) q = files w q"
    by (rule download_paths_induct [where P = "\<lambda>ps w res. \<forall>q. files w q \<noteq> None \<and> bf \<noteq> Some q
          \<longrightarrow> files (snd res) q = files w q"]) auto
  then show "download_paths net lf ps bf w = (r, w') \<Longrightarrow> files w q \<noteq> None \<Longrightarrow> bf \<noteq> Some q
     \<Longrightarrow> files w' q = files w q"
    by auto
qed

lemma download_paths_exists_mono:
  "download_paths net lf ps bf w = (r, w') \<Longrightarrow> files w q \<noteq> None \<Longrightarrow> files w' q \<noteq> None"
proof -
  have "\<forall>q. files w q \<noteq> None \<longrightarrow> files (snd (download_paths net lf ps bf w)) q \<noteq> None"
    by (rule download_paths_induct [where P = "\<lambda>ps w res. \<forall>q. files w q \<noteq> None
          \<longrightarrow> files (snd res) q \<noteq> None"]) auto
  then show "download_paths net lf ps bf w = (r, w') \<Longrightarrow> files w q \<noteq> None \<Longrightarrow> files w' q \<noteq> None"
    by auto
qed


lemma download_paths_complete:
  "download_paths net lf ps bf w = (None, w') \<Longrightarrow> p \<in> set ps \<Longrightarrow> files w' p \<noteq> None"
proof (induction ps arbitrary: w)
  case Nil
  then show ?case by simp
next
  case (Cons a ps)
  show ?case
  proof (cases "files w a \<noteq> None \<and> bf \<noteq> Some a")
    case True
    then have run: "download_paths net lf ps bf w = (None, w')"
      using Cons.prems(1) by (simp add: download_paths_skip)
    show ?thesis
    proof (cases "p = a")
      case True
      with \<open>files w a \<noteq> None \<and> bf \<noteq> Some a\<close> show ?thesis
        using download_paths_exists_mono [OF run] by blast
    next
      case False
      with Cons.prems(2) have "p \<in> set ps" by simp
      with run show ?thesis by (rule Cons.IH)
    qed
  next
    case False
    then have att: "files w a = None \<or> bf = Some a" by blast
    let ?w1 = "print_log (DownloadSpeed a) lf (attempted a Complete w)"
    from Cons.prems(1) att have run: "download_paths net lf ps bf ?w1 = (None, w')"
      by (cases "net (retr_count w)") (simp_all add: download_paths_attempt)
    show ?thesis
    proof (cases "p = a")
      case True
      have "files ?w1 a \<noteq> None" by simp
      with True show ?thesis
        using download_paths_exists_mono [OF run] by blast
    next
      case False
      with Cons.prems(2) have "p \<in> set ps" by simp
      with run show ?thesis by (rule Cons.IH)
    qed
  qed
qed

lemma download_paths_returned:
  assumes "download_paths net lf ps bf w = (Some (Inr (b, fl)), w')"
  shows "fl \<and> (\<exists>p. b = Some p \<and> p \<in> set ps \<and> files w' p = Some Partial
              \<and> (files w p = None \<or> bf = Some p))
         \<and> retr_count w < retr_count w'
         \<and> (net (retr_count w' - 1) = EOFError \<or> net (retr_count w' - 1) = ConnectionResetError)"
proof -
  let ?P = "\<lambda>ps w res. \<forall>b fl. fst res = Some (Inr (b, fl)) \<longrightarrow>
       fl \<and> (\<exists>p. b = Some p \<and> p \<in> set ps \<and> files (snd res) p = Some Partial
              \<and> (files w p = None \<or> bf = Some p))
         \<and> retr_count w < retr_count (snd res)
         \<and> (net (retr_count (snd res) - 1) = EOFError
              \<or> net (retr_count (snd res) - 1) = ConnectionResetError)"
  have "?P ps w (download_paths net lf ps bf w)"
  proof (rule download_paths_induct [where P = ?P])
    fix p ps w
    assume att: "files w p = None \<or> bf = Some p"
      and IH: "?P ps (print_log (DownloadSpeed p) lf (attempted p Complete w))
                 (download_paths net lf ps bf (print_log (DownloadSpeed p) lf (attempted p Complete w)))"
    show "?P (p # ps) w
            (download_paths net lf ps bf (print_log (DownloadSpeed p) lf (attempted p Complete w)))"
    proof (intro allI impI)
      fix b fl
      assume "fst (download_paths net lf ps bf
                (print_log (DownloadSpeed p) lf (attempted p Complete w))) = Some (Inr (b, fl))"
      with IH obtain q where q: "fl" "b = Some q" "q \<in> set ps"
          "files (snd (download_paths net lf ps bf
                (print_log (DownloadSpeed p) lf (attempted p Complete w)))) q = Some Partial"
          "files (print_log (DownloadSpeed p) lf (attempted p Complete w)) q = None \<or> bf = Some q"
          "retr_count (print_log (DownloadSpeed p) lf (attempted p Complete w))
             < retr_count (snd (download_paths net lf ps bf
                (print_log (DownloadSpeed p) lf (attempted p Complete w))))"
          "net (retr_count (snd (download_paths net lf ps bf
                (print_log (DownloadSpeed p) lf (attempted p Complete w)))) - 1) = EOFError
           \<or> net (retr_count (snd (download_paths net lf ps bf
                (print_log (DownloadSpeed p) lf (attempted p Complete w)))) - 1)
               = ConnectionResetError"
        by blast
      from q(5) have "files w q = None \<or> bf = Some q"
        by (auto split: if_splits)
      with q show "fl \<and> (\<exists>pa. b = Some pa \<and> pa \<in> set (p # ps)
              \<and> files (snd (download_paths net lf ps bf
                    (print_log (DownloadSpeed p) lf (attempted p Complete w)))) pa = Some Partial
              \<and> (files w pa = None \<or> bf = Some pa))
         \<and> retr_count w < retr_count (snd (download_paths net lf ps bf
                    (print_log (DownloadSpeed p) lf (attempted p Complete w))))
         \<and> (net (retr_count (snd (download_paths net lf ps bf
                    (print_log (DownloadSpeed p) lf (attempted p Complete w)))) - 1) = EOFError
              \<or> net (retr_count (snd (download_paths net lf ps bf
                    (print_log (DownloadSpeed p) lf (attempted p Complete w)))) - 1)
                  = ConnectionResetError)"
        by auto
    qed
  qed auto
  with assms show ?thesis by simp
qed

lemma download_paths_raised:
  assumes "download_paths net lf ps bf w = (Some (Inl x), w')"
  shows "x = TransferError \<and> retr_count w < retr_count w' \<and> net (retr_count w' - 1) = OtherError"
proof -
  let ?P = "\<lambda>(ps::string list) w res. \<forall>x. fst res = Some (Inl x) \<longrightarrow>
       x = TransferError \<and> retr_count w < retr_count (snd res)
         \<and> net (retr_count (snd res) - 1) = OtherError"
  have "?P ps w (download_paths net lf ps bf w)"
    by (rule download_paths_induct [where P = ?P]) auto
  with assms show ?thesis by simp
qed




lemma download_paths_all_retrieved:
  "\<forall>n\<ge>retr_count w. net n = Retrieved \<Longrightarrow> fst (download_paths net lf ps bf w) = None"
proof -
  let ?P = "\<lambda>(ps::string list) w res. (\<forall>n\<ge>retr_count w. net n = Retrieved) \<longrightarrow> fst res = None"
  have "?P ps w (download_paths net lf ps bf w)"
    by (rule download_paths_induct [where P = ?P]) auto
  then show "\<forall>n\<ge>retr_count w. net n = Retrieved \<Longrightarrow> fst (download_paths net lf ps bf w) = None"
    by simp
qed




subsection \<open>One call of download\<close>

lemma download_refused:
  "\<not> ftp_login srv (sessions_opened w) \<Longrightarrow>
     download srv net start_time end_time lf bf flag w = (Inl LoginError, w)"
  by (simp add: download_def)

lemma download_unfold:
  assumes "date_of start_time = Some s" and "date_of end_time = Some e"
    and "ftp_login srv (sessions_opened w)"
  shows "download srv net start_time end_time lf bf flag w
     = (case download_paths net lf (range_paths (all_dates s e)) bf
               (w\<lparr>sessions_opened := Suc (sessions_opened w)\<rparr>) of
          (None, w1) \<Rightarrow>
            (if ftp_quit srv (sessions_opened w)
             then (Inr (None, False), w1\<lparr>sessions_quit := Suc (sessions_quit w1)\<rparr>)
             else (Inl QuitError, w1))
        | (Some (Inr r), w1) \<Rightarrow> (Inr r, w1)
        | (Some (Inl x), w1) \<Rightarrow> (Inl x, w1))"
  using assms by (simp add: download_def download_dates_paths)

lemma download_frame:
  assumes "download srv net start_time end_time lf bf flag w = (res, w')"
    and "files w q \<noteq> None" and "bf \<noteq> Some q"
  shows "files w' q = files w q"
proof (cases "ftp_login srv (sessions_opened w)")
  case False
  with assms(1) show ?thesis
    by (simp add: download_refused)
next
  case login: True
  show ?thesis
  proof (cases "\<exists>s e. date_of start_time = Some s \<and> date_of end_time = Some e")
    case True
    then obtain s e where d: "date_of start_time = Some s" "date_of end_time = Some e" by blast
    obtain r w1 where run: "download_paths net lf (range_paths (all_dates s e)) bf
                 (w\<lparr>sessions_opened := Suc (sessions_opened w)\<rparr>) = (r, w1)"
      by (cases "download_paths net lf (range_paths (all_dates s e)) bf
                 (w\<lparr>sessions_opened := Suc (sessions_opened w)\<rparr>)") blast
    have "files w1 q = files w q"
      using download_paths_frame [OF run, of q] assms(2,3) by simp
    moreover have "files w' = files w1"
      using assms(1) run
      by (auto simp add: download_unfold [OF d login] split: option.splits sum.splits if_splits)
    ultimately show ?thesis by simp
  next
    case False
    then have "w' = w\<lparr>sessions_opened := Suc (sessions_opened w)\<rparr>"
      using assms(1) login by (cases "date_of start_time"; cases "date_of end_time")
        (auto simp add: download_def Let_def)
    then show ?thesis by simp
  qed
qed

lemma download_result:
  assumes "download srv net start_time end_time lf bf flag w = (Inr (b, fl), w')"
  shows "ftp_login srv (sessions_opened w)
     \<and> (\<exists>s e. date_of start_time = Some s \<and> date_of end_time = Some e
     \<and> (case b of
          None \<Rightarrow> \<not> fl \<and> ftp_quit srv (sessions_opened w)
            \<and> (\<exists>w1. download_paths net lf (range_paths (all_dates s e)) bf
                        (w\<lparr>sessions_opened := Suc (sessions_opened w)\<rparr>) = (None, w1)
                  \<and> w' = w1\<lparr>sessions_quit := Suc (sessions_quit w1)\<rparr>)
        | Some F \<Rightarrow> fl
            \<and> download_paths net lf (range_paths (all_dates s e)) bf
                        (w\<lparr>sessions_opened := Suc (sessions_opened w)\<rparr>)
                 = (Some (Inr (Some F, fl)), w')))"
proof -
  from assms have login: "ftp_login srv (sessions_opened w)"
    by (auto simp add: download_def split: if_splits)
  from assms login obtain s e where d: "date_of start_time = Some s" "date_of end_time = Some e"
    by (cases "date_of start_time"; cases "date_of end_time") (auto simp add: download_def Let_def)
  note download_unfold = download_unfold [OF _ _ login]
  obtain r w1 where run: "download_paths net lf (range_paths (all_dates s e)) bf
               (w\<lparr>sessions_opened := Suc (sessions_opened w)\<rparr>) = (r, w1)"
    by (cases "download_paths net lf (range_paths (all_dates s e)) bf
               (w\<lparr>sessions_opened := Suc (sessions_opened w)\<rparr>)") blast
  show ?thesis
  proof (cases r)
    case None
    with assms run d login show ?thesis
      by (auto simp add: download_unfold [OF d] split: if_splits)
  next
    case (Some x)
    show ?thesis
    proof (cases x)
      case (Inl y)
      with Some assms run show ?thesis
        by (simp add: download_unfold [OF d])
    next
      case (Inr y)
      with Some assms run have eq: "y = (b, fl)" "w1 = w'"
        by (simp_all add: download_unfold [OF d])
      with run Some Inr have run': "download_paths net lf (range_paths (all_dates s e)) bf
               (w\<lparr>sessions_opened := Suc (sessions_opened w)\<rparr>) = (Some (Inr (b, fl)), w')"
        by simp
      from download_paths_returned [OF run'] obtain F where "fl" "b = Some F" by blast
      with run' d login show ?thesis by auto
    qed
  qed
qed

subsection \<open>The retry loop\<close>

lemma retry_loop_frame:
  assumes "retry_loop srv net start_time end_time lf bf flag w = Some y"
  shows "files w q \<noteq> None \<longrightarrow> bf \<noteq> Some q \<longrightarrow> files (snd y) q = files w q"
proof (rule retry_loop.raw_induct [where P = "\<lambda>srv net start_time end_time lf bf flag w y.
          files w q \<noteq> None \<longrightarrow> bf \<noteq> Some q \<longrightarrow> files (snd y) q = files w q", OF _ assms])
  fix f srv net start_time end_time lf bf flag w y
  assume IH: "\<And>srv net start_time end_time lf bf flag w y. f srv net start_time end_time lf bf flag w = Some y
        \<Longrightarrow> files w q \<noteq> None \<longrightarrow> bf \<noteq> Some q \<longrightarrow> files (snd y) q = files w q"
    and eq: "(if flag
      then (case download srv net start_time end_time lf bf flag w of
              (Inl x, w') \<Rightarrow> Some (Inl x, w')
            | (Inr (break_file', flag'), w') \<Rightarrow>
                f srv net start_time end_time lf break_file' flag' (print_log Reconnected lf w'))
      else Some (Inr (bf, flag), w)) = Some y"
  show "files w q \<noteq> None \<longrightarrow> bf \<noteq> Some q \<longrightarrow> files (snd y) q = files w q"
  proof (intro impI)
    assume q: "files w q \<noteq> None" "bf \<noteq> Some q"
    show "files (snd y) q = files w q"
    proof (cases flag)
      case False
      with eq show ?thesis by auto
    next
      case True
      obtain res w' where d: "download srv net start_time end_time lf bf flag w = (res, w')"
        by (cases "download srv net start_time end_time lf bf flag w") blast
      have same: "files w' q = files w q"
        using download_frame [OF d q] .
      show ?thesis
      proof (cases res)
        case (Inl x)
        with eq True d same show ?thesis by auto
      next
        case (Inr r)
        obtain b fl where r: "r = (b, fl)" by (cases r) blast
        from eq True d Inr r
        have rec: "f srv net start_time end_time lf b fl (print_log Reconnected lf w') = Some y"
          by simp
        have "b \<noteq> Some q"
        proof
          assume b: "b = Some q"
          from d Inr r b download_result [of srv net start_time end_time lf bf flag w "Some q" fl w']
          obtain s e where "download_paths net lf (range_paths (all_dates s e)) bf
                        (w\<lparr>sessions_opened := Suc (sessions_opened w)\<rparr>)
                 = (Some (Inr (Some q, fl)), w')"
            by auto
          from download_paths_returned [OF this] q show False by auto
        qed
        with IH [OF rec] same q show ?thesis by simp
      qed
    qed
  qed
qed

lemma retry_loop_finished:
  assumes "retry_loop srv net start_time end_time lf bf flag w = Some y"
    and "date_of start_time = Some s" and "date_of end_time = Some e"
  shows "if flag
         then \<forall>r. fst y = Inr r \<longrightarrow>
                r = (None, False) \<and> (\<forall>p\<in>set (range_paths (all_dates s e)). files (snd y) p \<noteq> None)
         else y = (Inr (bf, flag), w)"
proof -
  have "start_time = start_time \<longrightarrow> end_time = end_time \<longrightarrow>
          (if flag
           then \<forall>r. fst y = Inr r \<longrightarrow>
                r = (None, False) \<and> (\<forall>p\<in>set (range_paths (all_dates s e)). files (snd y) p \<noteq> None)
           else y = (Inr (bf, flag), w))"
  proof (rule retry_loop.raw_induct [where P = "\<lambda>srv net st et lf bf flag w y.
          st = start_time \<longrightarrow> et = end_time \<longrightarrow>
          (if flag
           then \<forall>r. fst y = Inr r \<longrightarrow>
                r = (None, False) \<and> (\<forall>p\<in>set (range_paths (all_dates s e)). files (snd y) p \<noteq> None)
           else y = (Inr (bf, flag), w))", OF _ assms(1)])
  fix f srv net st et lf bf flag w y
  assume IH: "\<And>srv net st et lf bf flag w y. f srv net st et lf bf flag w = Some y
        \<Longrightarrow> st = start_time \<longrightarrow> et = end_time \<longrightarrow>
          (if flag
           then \<forall>r. fst y = Inr r \<longrightarrow>
                r = (None, False) \<and> (\<forall>p\<in>set (range_paths (all_dates s e)). files (snd y) p \<noteq> None)
           else y = (Inr (bf, flag), w))"
    and eq: "(if flag
      then (case download srv net st et lf bf flag w of
              (Inl x, w') \<Rightarrow> Some (Inl x, w')
            | (Inr (break_file', flag'), w') \<Rightarrow>
                f srv net st et lf break_file' flag' (print_log Reconnected lf w'))
      else Some (Inr (bf, flag), w)) = Some y"
  show "st = start_time \<longrightarrow> et = end_time \<longrightarrow>
          (if flag
           then \<forall>r. fst y = Inr r \<longrightarrow>
                r = (None, False) \<and> (\<forall>p\<in>set (range_paths (all_dates s e)). files (snd y) p \<noteq> None)
           else y = (Inr (bf, flag), w))"
  proof (intro impI)
    assume st: "st = start_time" "et = end_time"
    show "if flag
           then \<forall>r. fst y = Inr r \<longrightarrow>
                r = (None, False) \<and> (\<forall>p\<in>set (range_paths (all_dates s e)). files (snd y) p \<noteq> None)
           else y = (Inr (bf, flag), w)"
    proof (cases flag)
      case False
      with eq show ?thesis by auto
    next
      case True
      obtain res w' where d: "download srv net st et lf bf flag w = (res, w')"
        by (cases "download srv net st et lf bf flag w") blast
      show ?thesis
      proof (cases res)
        case (Inl x)
        with eq True d show ?thesis by auto
      next
        case (Inr r)
        obtain b fl where r: "r = (b, fl)" by (cases r) blast
        from eq True d Inr r
        have rec: "f srv net st et lf b fl (print_log Reconnected lf w') = Some y"
          by simp
        note post = IH [OF rec, rule_format, OF st]
        show ?thesis
        proof (cases fl)
          case True
          with post \<open>flag\<close> show ?thesis by auto
        next
          case False
          with post have y: "y = (Inr (b, fl), print_log Reconnected lf w')" by simp
          from d Inr r download_result [of srv net st et lf bf flag w b fl w'] False st assms(2,3)
          obtain w1 where "b = None"
            "download_paths net lf (range_paths (all_dates s e)) bf
                        (w\<lparr>sessions_opened := Suc (sessions_opened w)\<rparr>) = (None, w1)"
            "w' = w1\<lparr>sessions_quit := Suc (sessions_quit w1)\<rparr>"
            by (cases b) auto
          then show ?thesis
            using y False \<open>flag\<close> download_paths_complete [of net lf "range_paths (all_dates s e)" bf
                "w\<lparr>sessions_opened := Suc (sessions_opened w)\<rparr>" w1]
            by auto
        qed
      qed
    qed
  qed
  qed
  then show ?thesis by simp
qed

lemma retry_loop_terminates:
  assumes "\<forall>n\<ge>N. net n = Retrieved"
  shows "\<exists>y. retry_loop srv net start_time end_time lf bf flag w = Some y"
proof (induction "N - retr_count w" arbitrary: w bf flag rule: less_induct)
  case less
  show ?case
  proof (cases flag)
    case False
    then show ?thesis by (simp add: retry_loop.simps)
  next
    case True
    obtain res w' where d: "download srv net start_time end_time lf bf flag w = (res, w')"
      by (cases "download srv net start_time end_time lf bf flag w") blast
    show ?thesis
    proof (cases res)
      case (Inl x)
      with True d show ?thesis by (simp add: retry_loop.simps)
    next
      case (Inr r)
      obtain b fl where r: "r = (b, fl)" by (cases r) blast
      have unfold: "retry_loop srv net start_time end_time lf bf flag w
          = retry_loop srv net start_time end_time lf b fl (print_log Reconnected lf w')"
        using True d Inr r by (subst retry_loop.simps) simp
      show ?thesis
      proof (cases b)
        case None
        with d Inr r download_result [of srv net start_time end_time lf bf flag w b fl w']
        have "\<not> fl" by auto
        then show ?thesis
          unfolding unfold by (simp add: retry_loop.simps)
      next
        case (Some F)
        with d Inr r download_result [of srv net start_time end_time lf bf flag w b fl w']
        obtain s e where "download_paths net lf (range_paths (all_dates s e)) bf
                        (w\<lparr>sessions_opened := Suc (sessions_opened w)\<rparr>)
                 = (Some (Inr (Some F, fl)), w')"
          by auto
        from download_paths_returned [OF this]
        have lt: "retr_count w < retr_count w'"
          and cut: "net (retr_count w' - 1) = EOFError \<or> net (retr_count w' - 1) = ConnectionResetError"
          by simp_all
        from cut assms have "retr_count w' - 1 < N"
          by (metis not_le retr_outcome.distinct(1) retr_outcome.distinct(3))
        with lt have "N - retr_count (print_log Reconnected lf w') < N - retr_count w"
          by simp
        from less [OF this] show ?thesis
          unfolding unfold by blast
      qed
    qed
  qed
qed

lemma download_raised:
  assumes d: "download srv net start_time end_time lf bf flag w = (Inl x, w')"
    and dates: "date_of start_time = Some s" "date_of end_time = Some e"
  shows "(x = LoginError \<and> \<not> ftp_login srv (sessions_opened w) \<and> w' = w)
     \<or> (x = QuitError \<and> \<not> ftp_quit srv (sessions_opened w)
          \<and> (\<forall>p\<in>set (range_paths (all_dates s e)). files w' p \<noteq> None))
     \<or> (x = TransferError \<and> (\<exists>n. net n = OtherError))"
proof (cases "ftp_login srv (sessions_opened w)")
  case False
  with d show ?thesis
    by (simp add: download_refused)
next
  case True
  let ?w0 = "w\<lparr>sessions_opened := Suc (sessions_opened w)\<rparr>"
  obtain r w1 where p: "download_paths net lf (range_paths (all_dates s e)) bf ?w0 = (r, w1)"
    by (cases "download_paths net lf (range_paths (all_dates s e)) bf ?w0") blast
  show ?thesis
  proof (cases r)
    case None
    with d p True have "x = QuitError" "\<not> ftp_quit srv (sessions_opened w)" "w' = w1"
      by (auto simp add: download_unfold [OF dates True] split: if_splits)
    moreover have "\<forall>p\<in>set (range_paths (all_dates s e)). files w1 p \<noteq> None"
      using download_paths_complete [OF p [unfolded None]] by blast
    ultimately show ?thesis
      by simp
  next
    case (Some v)
    with d p True have "r = Some (Inl x)"
      by (auto simp add: download_unfold [OF dates True] split: sum.splits)
    with p download_paths_raised [of net lf "range_paths (all_dates s e)" bf ?w0 x w1]
    show ?thesis
      by auto
  qed
qed

lemma retry_loop_exception:
  assumes run: "retry_loop srv net start_time end_time lf bf flag w = Some y"
    and dates: "date_of start_time = Some s" "date_of end_time = Some e"
    and x: "fst y = Inl x"
  shows "(x = LoginError \<and> (\<exists>n. \<not> ftp_login srv n))
     \<or> (x = QuitError \<and> (\<exists>n. \<not> ftp_quit srv n)
          \<and> (\<forall>p\<in>set (range_paths (all_dates s e)). files (snd y) p \<noteq> None))
     \<or> (x = TransferError \<and> (\<exists>n. net n = OtherError))"
proof -
  let ?R = "\<lambda>(y::(raised + string option \<times> bool) \<times> disk) x.
       (x = LoginError \<and> (\<exists>n. \<not> ftp_login srv n))
     \<or> (x = QuitError \<and> (\<exists>n. \<not> ftp_quit srv n)
          \<and> (\<forall>p\<in>set (range_paths (all_dates s e)). files (snd y) p \<noteq> None))
     \<or> (x = TransferError \<and> (\<exists>n. net n = OtherError))"
  let ?Q = "\<lambda>(sv::server) nt st et (lf::string) (bf::string option) (flag::bool) (w::disk)
       (y::(raised + string option \<times> bool) \<times> disk).
       sv = srv \<longrightarrow> nt = net \<longrightarrow> st = start_time \<longrightarrow> et = end_time
         \<longrightarrow> (\<forall>x. fst y = Inl x \<longrightarrow> ?R y x)"
  have "?Q srv net start_time end_time lf bf flag w y"
  proof (rule retry_loop.raw_induct [where P = ?Q, OF _ run])
    fix f sv nt st et lf bf flag w y
    assume IH: "\<And>sv nt st et lf bf flag w y. f sv nt st et lf bf flag w = Some y
          \<Longrightarrow> ?Q sv nt st et lf bf flag w y"
      and eq: "(if flag
        then (case download sv nt st et lf bf flag w of
                (Inl x, w') \<Rightarrow> Some (Inl x, w')
              | (Inr (break_file', flag'), w') \<Rightarrow>
                  f sv nt st et lf break_file' flag' (print_log Reconnected lf w'))
        else Some (Inr (bf, flag), w)) = Some y"
    show "?Q sv nt st et lf bf flag w y"
    proof (intro impI allI)
      fix x
      assume st: "sv = srv" "nt = net" "st = start_time" "et = end_time"
        and x: "fst y = Inl x"
      show "?R y x"
      proof (cases flag)
        case False
        with eq x show ?thesis by auto
      next
        case True
        obtain res w' where d: "download sv nt st et lf bf flag w = (res, w')"
          by (cases "download sv nt st et lf bf flag w") blast
        show ?thesis
        proof (cases res)
          case (Inl z)
          with eq True d x have y: "y = (Inl x, w')" and "z = x"
            by auto
          with d Inl st have "download srv net start_time end_time lf bf flag w = (Inl x, w')"
            by simp
          from download_raised [OF this dates] y show ?thesis
            by auto
        next
          case (Inr r)
          obtain b fl where r: "r = (b, fl)" by (cases r) blast
          from eq True d Inr r
          have "f sv nt st et lf b fl (print_log Reconnected lf w') = Some y"
            by simp
          from IH [OF this] st x show ?thesis by blast
        qed
      qed
    qed
  qed
  with x show ?thesis by simp
qed

lemma retry_loop_no_exception:
  assumes run: "retry_loop srv net start_time end_time lf bf flag w = Some y"
    and dates: "date_of start_time = Some s" "date_of end_time = Some e"
    and net: "\<forall>n. net n \<noteq> OtherError"
    and srv: "\<forall>n. ftp_login srv n" "\<forall>n. ftp_quit srv n"
  shows "\<exists>r. fst y = Inr r"
proof (cases "fst y")
  case (Inl x)
  from retry_loop_exception [OF run dates Inl] net srv show ?thesis
    by blast
next
  case (Inr r)
  then show ?thesis by blast
qed



subsection \<open>Disconnects\<close>





subsection \<open>The files of the range\<close>



subsection \<open>The script with its own dates\<close>

lemma script_dates:
  "date_of ''20040101'' = Some (days_from_civil 2004 1 1)"
  "date_of ''20091231'' = Some (days_from_civil 2009 12 31)"
  by code_simp+

lemma script_completes:
  assumes "\<forall>n\<ge>N. net n = Retrieved" and "\<forall>n. net n \<noteq> OtherError"
    and "\<forall>n. ftp_login srv n" and "\<forall>n. ftp_quit srv n"
  shows "\<exists>w'. script srv net lf w = Some (Inr (None, False), w')
           \<and> (\<forall>p\<in>set (range_paths (all_dates (days_from_civil 2004 1 1)
                  (days_from_civil 2009 12 31))). files w' p \<noteq> None)"
    and "length (range_paths (all_dates (days_from_civil 2004 1 1) (days_from_civil 2009 12 31)))
           = 8768"
proof -
  let ?w = "print_log Downloading lf w"
  obtain y where y: "retry_loop srv net ''20040101'' ''20091231'' lf None True ?w = Some y"
    using retry_loop_terminates [OF assms(1)] by blast
  from retry_loop_no_exception [OF y script_dates assms(2-4)] obtain r where r: "fst y = Inr r"
    by blast
  from retry_loop_finished [OF y script_dates]
  have "\<forall>r. fst y = Inr r \<longrightarrow> r = (None, False)
     \<and> (\<forall>p\<in>set (range_paths (all_dates (days_from_civil 2004 1 1)
            (days_from_civil 2009 12 31))). files (snd y) p \<noteq> None)"
    by (simp only: if_True)
  with r have fin: "r = (None, False)"
    "\<forall>p\<in>set (range_paths (all_dates (days_from_civil 2004 1 1) (days_from_civil 2009 12 31))).
        files (snd y) p \<noteq> None"
    by blast+
  with r have "y = (Inr (None, False), snd y)"
    by (cases y) simp
  with y fin(2) show "\<exists>w'. script srv net lf w = Some (Inr (None, False), w')
           \<and> (\<forall>p\<in>set (range_paths (all_dates (days_from_civil 2004 1 1)
                  (days_from_civil 2009 12 31))). files w' p \<noteq> None)"
    unfolding script_def by metis
  show "length (range_paths (all_dates (days_from_civil 2004 1 1) (days_from_civil 2009 12 31)))
           = 8768"
    by (simp add: length_range_paths length_all_dates days_from_civil_def)
qed

subsection \<open>Recovery after a disconnect, and what it leaves alone\<close>




lemma first_pass_result: "fst first_pass = Inr (Some file_06, True)"
  by code_simp

lemma flaky_net_later: "\<forall>n\<ge>3. flaky_net n = Retrieved"
  by (simp add: flaky_net_def)





text \<open>
  C10. A call of \<open>download\<close> leaves every file that exists and is not the recorded break
  file as it is, and so does the whole retry loop: the files of earlier sessions outlive
  every reconnect. The file that a call records as interrupted was absent before the call
  or was the break file of the call.
\<close>

theorem completed_downloads_preserved:
  "(files w q \<noteq> None \<and> bf \<noteq> Some q \<longrightarrow>
      files (snd (download srv net start_time end_time lf bf flag w)) q = files w q)
   \<and> (retry_loop srv net start_time end_time lf bf flag w = Some y
        \<and> files w q \<noteq> None \<and> bf \<noteq> Some q \<longrightarrow>
      files (snd y) q = files w q)
   \<and> (fst (download srv net start_time end_time lf bf flag w) = Inr (Some F, fl) \<longrightarrow>
      files w F = None \<or> bf = Some F)"
proof (intro conjI impI)
  assume "files w q \<noteq> None \<and> bf \<noteq> Some q"
  then show "files (snd (download srv net start_time end_time lf bf flag w)) q = files w q"
    using download_frame [of srv net start_time end_time lf bf flag w
        "fst (download srv net start_time end_time lf bf flag w)"
        "snd (download srv net start_time end_time lf bf flag w)" q]
    by simp
next
  assume "retry_loop srv net start_time end_time lf bf flag w = Some y
        \<and> files w q \<noteq> None \<and> bf \<noteq> Some q"
  then show "files (snd y) q = files w q"
    using retry_loop_frame [of srv net start_time end_time lf bf flag w y q] by blast
next
  assume "fst (download srv net start_time end_time lf bf flag w) = Inr (Some F, fl)"
  then obtain w' where d: "download srv net start_time end_time lf bf flag w = (Inr (Some F, fl), w')"
    by (cases "download srv net start_time end_time lf bf flag w") auto
  from download_result [OF d] obtain s e where
    "download_paths net lf (range_paths (all_dates s e)) bf
        (w\<lparr>sessions_opened := Suc (sessions_opened w)\<rparr>) = (Some (Inr (Some F, fl)), w')"
    by auto
  from download_paths_returned [OF this] show "files w F = None \<or> bf = Some F"
    by auto
qed


theorem completed_downloads_preserved_witness:
  "files interrupted_disk file_00 \<noteq> None \<and> None \<noteq> Some file_00
   \<and> files (snd (download good_server flaky_net ''20040131'' ''20040201'' ''log'' None True
        interrupted_disk)) file_00 = Some Partial
   \<and> retry_loop good_server flaky_net ''20040131'' ''20040201'' ''log'' None True interrupted_disk
       = Some (the (retry_loop good_server flaky_net ''20040131'' ''20040201'' ''log'' None True
           interrupted_disk))
   \<and> files (snd (the (retry_loop good_server flaky_net ''20040131'' ''20040201'' ''log'' None True
          interrupted_disk))) file_00 = Some Partial
   \<and> fst first_pass = Inr (Some file_06, True)
   \<and> files empty_disk file_06 = None"
proof -
  let ?run = "retry_loop good_server flaky_net ''20040131'' ''20040201'' ''log'' None True
    interrupted_disk"
  have here: "files interrupted_disk file_00 = Some Partial"
    by (simp add: interrupted_disk_def)
  have "\<exists>y. ?run = Some y"
    using flaky_net_later by (rule retry_loop_terminates)
  then have run: "?run = Some (the ?run)"
    by auto
  note first = first_pass_result
  note T = completed_downloads_preserved [where srv = good_server and net = flaky_net
      and start_time = "''20040131''" and end_time = "''20040201''" and lf = "''log''"
      and bf = None and flag = True]
  from T [where w = interrupted_disk and q = file_00 and y = "the ?run", THEN conjunct1] here
  have c1: "files (snd (download good_server flaky_net ''20040131'' ''20040201'' ''log'' None True
      interrupted_disk)) file_00 = Some Partial"
    by simp
  from T [where w = interrupted_disk and q = file_00 and y = "the ?run",
      THEN conjunct2, THEN conjunct1] here run
  have c2: "files (snd (the ?run)) file_00 = Some Partial"
    by simp
  from T [where w = empty_disk and F = file_06 and fl = True,
      THEN conjunct2, THEN conjunct2] first
  have c3: "files empty_disk file_06 = None"
    unfolding first_pass_def by simp
  from here c1 run c2 first c3 show ?thesis by simp
qed

end
